theory Spec2Isabelle
  imports Main "HOL-Library.Word"
begin

section \<open>Strings of the platform\<close>

text \<open>
  A JavaScript string is a finite sequence of 16-bit code units. The literals of
  \<^verbatim>\<open>App.js\<close> that matter here are ASCII, so they are written as HOL strings and
  mapped code unit by code unit.
\<close>

type_synonym jschar = "16 word"
type_synonym jsstring = "jschar list"

definition ascii :: "string \<Rightarrow> jsstring" where
  "ascii s = map (\<lambda>c. of_nat (of_char c)) s"

text \<open>
  \<^verbatim>\<open>String.prototype.trim\<close> strips the code points that ECMA-262 calls WhiteSpace and
  LineTerminator from both ends: TAB, VT, FF, SP, NBSP, ZWNBSP, the Unicode space
  separators, and LF, CR, LS, PS. All of them are single code units.
\<close>

definition isWhiteSpace :: "jschar \<Rightarrow> bool" where
  "isWhiteSpace c \<longleftrightarrow>
     c = 0x0009 \<or> c = 0x000A \<or> c = 0x000B \<or> c = 0x000C \<or> c = 0x000D \<or> c = 0x0020 \<or>
     c = 0x00A0 \<or> c = 0x1680 \<or> (0x2000 \<le> c \<and> c \<le> 0x200A) \<or> c = 0x2028 \<or>
     c = 0x2029 \<or> c = 0x202F \<or> c = 0x205F \<or> c = 0x3000 \<or> c = 0xFEFF"

definition trim :: "jsstring \<Rightarrow> jsstring" where
  "trim s = rev (dropWhile isWhiteSpace (rev (dropWhile isWhiteSpace s)))"

text \<open>
  \<^verbatim>\<open>Date.now()\<close> is an integral number of milliseconds, far below \<open>10\<^sup>2\<^sup>1\<close> in
  absolute value, and \<^verbatim>\<open>toString()\<close> of such a number is its decimal numeral, with a
  leading minus sign for a reading before the epoch.
\<close>

definition digit :: "nat \<Rightarrow> jschar" where
  "digit d = of_nat (48 + d)"

fun decimal :: "nat \<Rightarrow> jsstring" where
  "decimal n = (if n < 10 then [digit n] else decimal (n div 10) @ [digit (n mod 10)])"

declare decimal.simps [simp del]

definition toString :: "int \<Rightarrow> jsstring" where
  "toString n = (if n < 0 then 0x2D # decimal (nat (- n)) else decimal (nat n))"


section \<open>The task list and the component state\<close>

text \<open>
  A task is the object literal built in \<^verbatim>\<open>addTask\<close>: \<^verbatim>\<open>{ id, text, isCompleted }\<close>.
  The field names \<^verbatim>\<open>id\<close> and \<^verbatim>\<open>text\<close> are taken in HOL, hence the prefix.
\<close>

record task =
  task_id :: jsstring
  task_text :: jsstring
  isCompleted :: bool

text \<open>
  The two messages of \<^verbatim>\<open>Alert.alert\<close>: \<^verbatim>\<open>'Erro ao carregar'\<close> in the handler of
  \<^verbatim>\<open>loadTasks\<close> and \<^verbatim>\<open>'Erro ao salvar'\<close> in the handler of \<^verbatim>\<open>saveTasks\<close>. Each comes
  with a \<^verbatim>\<open>console.error\<close> of the same failure.
\<close>

datatype alert = Erro_ao_carregar | Erro_ao_salvar

text \<open>What a rejected storage promise or a failing \<^verbatim>\<open>JSON.parse\<close> throws.\<close>

datatype js_error = StorageError | SyntaxError

text \<open>
  The state of \<^verbatim>\<open>App\<close>: the two \<^verbatim>\<open>useState\<close> cells, and the calls the component has made
  to its collaborators, oldest first: the alerts shown, and the \<^verbatim>\<open>AsyncStorage.setItem\<close>
  calls with their key and value.

  React decides whether to run the effect \<^verbatim>\<open>useEffect(() => saveTasks(tasks), [tasks])\<close> by
  comparing the identity of the value held in \<^verbatim>\<open>tasks\<close> with the one seen at the effect's
  last run, and it always runs it after the first render. \<open>tasks_ref\<close> is that
  identity (every \<^verbatim>\<open>setTasks\<close> of this program installs a freshly allocated value) and
  \<open>saved_ref\<close> is the identity seen at the last run, \<open>None\<close> before the first render.

  The type of the value in \<^verbatim>\<open>tasks\<close> is a parameter: the handlers work on task lists,
  while \<^verbatim>\<open>loadTasks\<close> and \<^verbatim>\<open>saveTasks\<close> only move the value between the state and the
  store.
\<close>

record 'v app =
  tasks :: 'v
  taskText :: jsstring
  alerts :: "alert list"
  writes :: "(jsstring \<times> jsstring) list"
  tasks_ref :: nat
  saved_ref :: "nat option"

definition STORAGE_KEY :: jsstring where
  "STORAGE_KEY = ascii ''@TodoList:tasks''"

definition init_state :: "'v \<Rightarrow> 'v app" where
  "init_state v = \<lparr>tasks = v, taskText = [], alerts = [], writes = [], tasks_ref = 0,
     saved_ref = None\<rparr>"

text \<open>\<^verbatim>\<open>useState([])\<close> and \<^verbatim>\<open>useState('')\<close>.\<close>

definition init_app :: "task list app" where
  "init_app = init_state []"

text \<open>\<^verbatim>\<open>generateId\<close>, with the reading of the clock as its argument.\<close>

definition generateId :: "int \<Rightarrow> jsstring" where
  "generateId now = toString now"

definition setTasks :: "('v \<Rightarrow> 'v) \<Rightarrow> 'v app \<Rightarrow> 'v app" where
  "setTasks f st = st\<lparr>tasks := f (tasks st), tasks_ref := Suc (tasks_ref st)\<rparr>"

definition setTaskText :: "jsstring \<Rightarrow> 'v app \<Rightarrow> 'v app" where
  "setTaskText s st = st\<lparr>taskText := s\<rparr>"

text \<open>
  \<^verbatim>\<open>addTask\<close>: the early return on blank input, then the new task in front of the
  previous ones and the input field cleared. (\<^verbatim>\<open>Keyboard.dismiss\<close> belongs to the view.)
\<close>

definition addTask :: "int \<Rightarrow> task list app \<Rightarrow> task list app" where
  "addTask now st =
     (if trim (taskText st) = [] then st
      else
        let newTask = \<lparr>task_id = generateId now, task_text = trim (taskText st),
                       isCompleted = False\<rparr>
        in setTaskText [] (setTasks (\<lambda>prevTasks. newTask # prevTasks) st))"

text \<open>\<^verbatim>\<open>toggleTask\<close>: \<^verbatim>\<open>map\<close> with the spread that negates \<^verbatim>\<open>isCompleted\<close>.\<close>

definition toggleTask :: "jsstring \<Rightarrow> task list app \<Rightarrow> task list app" where
  "toggleTask k st =
     setTasks (\<lambda>prevTasks.
        map (\<lambda>task. if task_id task = k then task\<lparr>isCompleted := \<not> isCompleted task\<rparr>
                     else task) prevTasks) st"

text \<open>
  \<^verbatim>\<open>deleteTask\<close>: \<^verbatim>\<open>filter\<close> on the id. (\<^verbatim>\<open>LayoutAnimation.configureNext\<close> belongs to the
  view.)
\<close>

definition deleteTask :: "jsstring \<Rightarrow> task list app \<Rightarrow> task list app" where
  "deleteTask k st =
     setTasks (\<lambda>prevTasks. filter (\<lambda>task. task_id task \<noteq> k) prevTasks) st"


section \<open>Loading, saving and the persistence effect\<close>

text \<open>
  \<^verbatim>\<open>JSON.parse\<close> and \<^verbatim>\<open>JSON.stringify\<close> belong to the platform and are parameters of
  the two functions; their model for task lists follows in the next section.

  \<^verbatim>\<open>loadTasks\<close>, from the point where \<^verbatim>\<open>AsyncStorage.getItem\<close> settles. Its argument
  \<open>got\<close> is what the promise settled with: a rejection, \<^verbatim>\<open>null\<close> for a key that is not in
  the store, or the stored string. The test \<^verbatim>\<open>if (storedTasks)\<close> is a test for truthiness:
  \<^verbatim>\<open>null\<close> and the empty string fail it. Whatever \<^verbatim>\<open>JSON.parse\<close> returns goes into the
  state; the \<^verbatim>\<open>catch\<close> block covers the rejection and the parse error alike.
\<close>

definition loadTasks ::
  "(jsstring \<Rightarrow> js_error + 'v) \<Rightarrow> js_error + jsstring option \<Rightarrow> 'v app \<Rightarrow> 'v app" where
  "loadTasks parse got st =
     (case got of
        Inl error \<Rightarrow> st\<lparr>alerts := alerts st @ [Erro_ao_carregar]\<rparr>
      | Inr None \<Rightarrow> st
      | Inr (Some storedTasks) \<Rightarrow>
          if storedTasks = [] then st
          else (case parse storedTasks of
                  Inl error \<Rightarrow> st\<lparr>alerts := alerts st @ [Erro_ao_carregar]\<rparr>
                | Inr v \<Rightarrow> setTasks (\<lambda>_. v) st))"

text \<open>
  \<^verbatim>\<open>saveTasks\<close>: one call of \<^verbatim>\<open>AsyncStorage.setItem\<close> with the fixed key and the
  serialized list. \<open>ok\<close> tells whether the promise of that call is fulfilled; when it is
  rejected the \<^verbatim>\<open>catch\<close> block shows the alert, and nothing else happens.
\<close>

definition saveTasks :: "('v \<Rightarrow> jsstring) \<Rightarrow> bool \<Rightarrow> 'v \<Rightarrow> 'v app \<Rightarrow> 'v app" where
  "saveTasks stringify ok currentTasks st =
     (let st' = st\<lparr>writes := writes st @ [(STORAGE_KEY, stringify currentTasks)]\<rparr>
      in if ok then st' else st'\<lparr>alerts := alerts st' @ [Erro_ao_salvar]\<rparr>)"

text \<open>
  The effect \<^verbatim>\<open>useEffect(() => { saveTasks(tasks); }, [tasks])\<close>, run after a render: it
  fires when the value in \<^verbatim>\<open>tasks\<close> is not the one it saw last time.
\<close>

definition persist_effect :: "('v \<Rightarrow> jsstring) \<Rightarrow> bool \<Rightarrow> 'v app \<Rightarrow> 'v app" where
  "persist_effect stringify ok st =
     (if saved_ref st = Some (tasks_ref st) then st
      else saveTasks stringify ok (tasks st) (st\<lparr>saved_ref := Some (tasks_ref st)\<rparr>))"

text \<open>
  The first render. Both effects run: \<^verbatim>\<open>loadTasks()\<close> issues its \<^verbatim>\<open>getItem\<close>, which settles
  later (the event \<open>Loaded\<close> below), and the persistence effect runs for the first time.
\<close>

definition mount :: "('v \<Rightarrow> jsstring) \<Rightarrow> bool \<Rightarrow> 'v app \<Rightarrow> 'v app" where
  "mount stringify ok st = persist_effect stringify ok st"

text \<open>A state is rendered when the persistence effect has seen the current list.\<close>

definition rendered :: "'v app \<Rightarrow> bool" where
  "rendered st \<longleftrightarrow> saved_ref st = Some (tasks_ref st)"

text \<open>
  What reaches the mounted component: the settling of the \<^verbatim>\<open>getItem\<close> of \<^verbatim>\<open>loadTasks\<close>,
  typing into the input (\<^verbatim>\<open>onChangeText\<close>), submitting it (\<^verbatim>\<open>onSubmitEditing\<close> or the add
  button, with the reading of the clock at that moment), the checkbox and the delete button of
  an item. In \<open>step\<close> and \<open>run\<close> every event is committed by a render of its own: it
  is handled, the component renders again, and the persistence effect runs; the boolean that
  comes with an event is the fate of the \<^verbatim>\<open>setItem\<close> promise, should the effect issue
  one. The list of the component is a list of tasks, so the parameter that stands for
  \<^verbatim>\<open>JSON.parse\<close> answers with one here. Renders that commit several calls, and
  \<^verbatim>\<open>JSON.parse\<close> with the values of the platform, follow the serialization format below.
\<close>

datatype event =
    Loaded "js_error + jsstring option"
  | ChangeText jsstring
  | Submit int
  | Toggle jsstring
  | Delete jsstring

fun handle ::
  "(jsstring \<Rightarrow> js_error + task list) \<Rightarrow> event \<Rightarrow> task list app \<Rightarrow> task list app" where
  "handle parse (Loaded got) st = loadTasks parse got st"
| "handle parse (ChangeText s) st = setTaskText s st"
| "handle parse (Submit now) st = addTask now st"
| "handle parse (Toggle k) st = toggleTask k st"
| "handle parse (Delete k) st = deleteTask k st"

definition step ::
  "(jsstring \<Rightarrow> js_error + task list) \<Rightarrow> (task list \<Rightarrow> jsstring) \<Rightarrow> event \<times> bool \<Rightarrow>
     task list app \<Rightarrow> task list app" where
  "step parse stringify e st = persist_effect stringify (snd e) (handle parse (fst e) st)"

fun run ::
  "(jsstring \<Rightarrow> js_error + task list) \<Rightarrow> (task list \<Rightarrow> jsstring) \<Rightarrow> (event \<times> bool) list \<Rightarrow>
     task list app \<Rightarrow> task list app" where
  "run parse stringify [] st = st"
| "run parse stringify (e # es) st = run parse stringify es (step parse stringify e st)"

text \<open>
  The observed changes of the list as the specification counts them: a hydration that
  replaces the list, the addition of a text that is not blank, a toggle and a deletion (of
  an id that is in the list or not).
\<close>

fun observed_change ::
  "(jsstring \<Rightarrow> js_error + task list) \<Rightarrow> event \<Rightarrow> task list app \<Rightarrow> bool" where
  "observed_change parse (Loaded got) st =
     (case got of Inr (Some s) \<Rightarrow> s \<noteq> [] \<and> \<not> isl (parse s) | _ \<Rightarrow> False)"
| "observed_change parse (ChangeText s) st = False"
| "observed_change parse (Submit now) st = (trim (taskText st) \<noteq> [])"
| "observed_change parse (Toggle k) st = True"
| "observed_change parse (Delete k) st = True"


section \<open>The serialization format\<close>

text \<open>
  \<^verbatim>\<open>JSON.stringify\<close> and \<^verbatim>\<open>JSON.parse\<close> as ECMA-262 defines them, on the values this
  program hands to them.

  A parsed value is \<^verbatim>\<open>null\<close>, a boolean, a number, a string, an array or an object. A
  number is kept as the literal that denotes it (its value is an IEEE double, which nothing
  here computes with), and an object as its members in the order of the text (the platform
  keeps the last of several members of one name and lists integer-like names first; a
  task object has three different names, none of them integer-like).
\<close>

datatype jsval =
    JNull
  | JBool bool
  | JNum jsstring
  | JStr jsstring
  | JArr "jsval list"
  | JObj "(jsstring \<times> jsval) list"

text \<open>The value that a task, and a list of tasks, is on the platform.\<close>

definition js_of_task :: "task \<Rightarrow> jsval" where
  "js_of_task t =
     JObj [(ascii ''id'', JStr (task_id t)), (ascii ''text'', JStr (task_text t)),
           (ascii ''isCompleted'', JBool (isCompleted t))]"

definition js_of_tasks :: "task list \<Rightarrow> jsval" where
  "js_of_tasks ts = JArr (map js_of_task ts)"

subsection \<open>Writing\<close>

text \<open>
  \<^verbatim>\<open>QuoteJSONString\<close> walks the code points of the string. The two-character escapes are
  those of backspace, tab, line feed, form feed, carriage return, the quotation mark and the
  backslash; any other control character and any surrogate that is not half of a pair is
  written as \<^verbatim>\<open>\uXXXX\<close> with lower-case hexadecimal digits; a pair of surrogates and every
  other code unit stand for themselves.
\<close>

definition hexDigit :: "nat \<Rightarrow> jschar" where
  "hexDigit d = (if d < 10 then of_nat (48 + d) else of_nat (87 + d))"

definition UnicodeEscape :: "jschar \<Rightarrow> jsstring" where
  "UnicodeEscape c =
     [0x5C, 0x75, hexDigit (unat c div 4096), hexDigit (unat c div 256 mod 16),
      hexDigit (unat c div 16 mod 16), hexDigit (unat c mod 16)]"

definition isLeadingSurrogate :: "jschar \<Rightarrow> bool" where
  "isLeadingSurrogate c \<longleftrightarrow> 0xD800 \<le> c \<and> c \<le> 0xDBFF"

definition isTrailingSurrogate :: "jschar \<Rightarrow> bool" where
  "isTrailingSurrogate c \<longleftrightarrow> 0xDC00 \<le> c \<and> c \<le> 0xDFFF"

definition quoteCodeUnit :: "jschar \<Rightarrow> jsstring" where
  "quoteCodeUnit c =
     (if c = 0x08 then [0x5C, 0x62]
      else if c = 0x09 then [0x5C, 0x74]
      else if c = 0x0A then [0x5C, 0x6E]
      else if c = 0x0C then [0x5C, 0x66]
      else if c = 0x0D then [0x5C, 0x72]
      else if c = 0x22 then [0x5C, 0x22]
      else if c = 0x5C then [0x5C, 0x5C]
      else if c < 0x20 \<or> isLeadingSurrogate c \<or> isTrailingSurrogate c then UnicodeEscape c
      else [c])"

fun quoteCodePoints :: "jsstring \<Rightarrow> jsstring" where
  "quoteCodePoints [] = []"
| "quoteCodePoints [c] = quoteCodeUnit c"
| "quoteCodePoints (c # d # cs) =
     (if isLeadingSurrogate c \<and> isTrailingSurrogate d then c # d # quoteCodePoints cs
      else quoteCodeUnit c @ quoteCodePoints (d # cs))"

definition QuoteJSONString :: "jsstring \<Rightarrow> jsstring" where
  "QuoteJSONString s = 0x22 # quoteCodePoints s @ [0x22]"

text \<open>
  An object is written with its properties in the order of their creation, which the spread
  in \<^verbatim>\<open>toggleTask\<close> keeps: \<^verbatim>\<open>id\<close>, \<^verbatim>\<open>text\<close>, \<^verbatim>\<open>isCompleted\<close>. No white space is
  written, since \<^verbatim>\<open>saveTasks\<close> passes no indentation.
\<close>

definition stringify_task :: "task \<Rightarrow> jsstring" where
  "stringify_task t =
     0x7B # QuoteJSONString (ascii ''id'') @ 0x3A # QuoteJSONString (task_id t) @
     0x2C # QuoteJSONString (ascii ''text'') @ 0x3A # QuoteJSONString (task_text t) @
     0x2C # QuoteJSONString (ascii ''isCompleted'') @ 0x3A #
       (if isCompleted t then ascii ''true'' else ascii ''false'') @ [0x7D]"

fun join_comma :: "jsstring list \<Rightarrow> jsstring" where
  "join_comma [] = []"
| "join_comma [x] = x"
| "join_comma (x # y # ys) = x @ 0x2C # join_comma (y # ys)"

definition JSON_stringify :: "task list \<Rightarrow> jsstring" where
  "JSON_stringify ts = 0x5B # join_comma (map stringify_task ts) @ [0x5D]"

subsection \<open>Reading\<close>

text \<open>
  \<^verbatim>\<open>JSON.parse\<close> accepts exactly the texts of the JSON grammar. The text is cut into
  tokens first. A lexer for one kind of token answers with the number of code units it has
  read, and the tokenizer goes on behind them.
\<close>

datatype token =
    LBracket | RBracket | LBrace | RBrace | Colon | Comma
  | TString jsstring | TNumber jsstring | TTrue | TFalse | TNull

definition hexValue :: "jschar \<Rightarrow> nat option" where
  "hexValue c =
     (if 0x30 \<le> c \<and> c \<le> 0x39 then Some (unat c - 48)
      else if 0x41 \<le> c \<and> c \<le> 0x46 then Some (unat c - 55)
      else if 0x61 \<le> c \<and> c \<le> 0x66 then Some (unat c - 87)
      else None)"

definition hex4 :: "jschar \<Rightarrow> jschar \<Rightarrow> jschar \<Rightarrow> jschar \<Rightarrow> jschar option" where
  "hex4 a b c d =
     (case (hexValue a, hexValue b, hexValue c, hexValue d) of
        (Some x, Some y, Some z, Some w) \<Rightarrow> Some (of_nat (((x * 16 + y) * 16 + z) * 16 + w))
      | _ \<Rightarrow> None)"

text \<open>The character after a backslash, other than \<^verbatim>\<open>u\<close>.\<close>

definition unescape :: "jschar \<Rightarrow> jschar option" where
  "unescape c =
     (if c = 0x22 then Some 0x22
      else if c = 0x5C then Some 0x5C
      else if c = 0x2F then Some 0x2F
      else if c = 0x62 then Some 0x08
      else if c = 0x66 then Some 0x0C
      else if c = 0x6E then Some 0x0A
      else if c = 0x72 then Some 0x0D
      else if c = 0x74 then Some 0x09
      else None)"

text \<open>
  A string, from behind its opening quotation mark: its value, and the number of code units
  up to and including the closing quotation mark. A control character in a string is an error,
  and so is the end of the text.
\<close>

fun lex_string :: "jsstring \<Rightarrow> (jsstring \<times> nat) option" where
  "lex_string [] = None"
| "lex_string (c # cs) =
     (if c = 0x22 then Some ([], 1)
      else if c = 0x5C then
        (case cs of
           [] \<Rightarrow> None
         | e # es \<Rightarrow>
             if e = 0x75 then
               (case es of
                  h1 # h2 # h3 # h4 # rest \<Rightarrow>
                    (case hex4 h1 h2 h3 h4 of
                       None \<Rightarrow> None
                     | Some u \<Rightarrow> map_option (\<lambda>(s, n). (u # s, n + 6)) (lex_string rest))
                | _ \<Rightarrow> None)
             else
               (case unescape e of
                  None \<Rightarrow> None
                | Some u \<Rightarrow> map_option (\<lambda>(s, n). (u # s, n + 2)) (lex_string es)))
      else if c < 0x20 then None
      else map_option (\<lambda>(s, n). (c # s, n + 1)) (lex_string cs))"

text \<open>
  A number: an optional minus sign, an integer part without a leading zero, an optional
  fraction, an optional exponent. Each part answers with its length.
\<close>

definition isDigit :: "jschar \<Rightarrow> bool" where
  "isDigit c \<longleftrightarrow> 0x30 \<le> c \<and> c \<le> 0x39"

definition lex_int :: "jsstring \<Rightarrow> nat option" where
  "lex_int s =
     (case s of
        [] \<Rightarrow> None
      | c # cs \<Rightarrow>
          if c = 0x30 then Some 1
          else if isDigit c then Some (1 + length (takeWhile isDigit cs))
          else None)"

definition lex_frac :: "jsstring \<Rightarrow> nat option" where
  "lex_frac s =
     (case s of
        [] \<Rightarrow> Some 0
      | c # cs \<Rightarrow>
          if c = 0x2E then
            (if takeWhile isDigit cs = [] then None
             else Some (1 + length (takeWhile isDigit cs)))
          else Some 0)"

definition lex_exp :: "jsstring \<Rightarrow> nat option" where
  "lex_exp s =
     (case s of
        [] \<Rightarrow> Some 0
      | c # cs \<Rightarrow>
          if c = 0x65 \<or> c = 0x45 then
            (let k = (case cs of [] \<Rightarrow> 0 | d # _ \<Rightarrow> if d = 0x2B \<or> d = 0x2D then 1 else 0);
                 ds = takeWhile isDigit (drop k cs)
             in if ds = [] then None else Some (1 + k + length ds))
          else Some 0)"

definition lex_number :: "jsstring \<Rightarrow> nat option" where
  "lex_number s =
     (let m = (case s of [] \<Rightarrow> 0 | c # _ \<Rightarrow> if c = 0x2D then 1 else 0) in
      case lex_int (drop m s) of
        None \<Rightarrow> None
      | Some i \<Rightarrow>
          (case lex_frac (drop (m + i) s) of
             None \<Rightarrow> None
           | Some f \<Rightarrow>
               (case lex_exp (drop (m + i + f) s) of
                  None \<Rightarrow> None
                | Some e \<Rightarrow> Some (m + i + f + e))))"

definition isJSONWhiteSpace :: "jschar \<Rightarrow> bool" where
  "isJSONWhiteSpace c \<longleftrightarrow> c = 0x09 \<or> c = 0x0A \<or> c = 0x0D \<or> c = 0x20"

definition starts_with :: "jsstring \<Rightarrow> jsstring \<Rightarrow> bool" where
  "starts_with p s \<longleftrightarrow> take (length p) s = p"

fun tokenize :: "jsstring \<Rightarrow> token list option" where
  "tokenize [] = Some []"
| "tokenize (c # cs) =
     (if isJSONWhiteSpace c then tokenize cs
      else if c = 0x5B then map_option ((#) LBracket) (tokenize cs)
      else if c = 0x5D then map_option ((#) RBracket) (tokenize cs)
      else if c = 0x7B then map_option ((#) LBrace) (tokenize cs)
      else if c = 0x7D then map_option ((#) RBrace) (tokenize cs)
      else if c = 0x3A then map_option ((#) Colon) (tokenize cs)
      else if c = 0x2C then map_option ((#) Comma) (tokenize cs)
      else if c = 0x22 then
        (case lex_string cs of
           None \<Rightarrow> None
         | Some (s, n) \<Rightarrow> map_option ((#) (TString s)) (tokenize (drop n cs)))
      else if starts_with (ascii ''true'') (c # cs) then
        map_option ((#) TTrue) (tokenize (drop 3 cs))
      else if starts_with (ascii ''false'') (c # cs) then
        map_option ((#) TFalse) (tokenize (drop 4 cs))
      else if starts_with (ascii ''null'') (c # cs) then
        map_option ((#) TNull) (tokenize (drop 3 cs))
      else
        (case lex_number (c # cs) of
           None \<Rightarrow> None
         | Some n \<Rightarrow>
             map_option ((#) (TNumber (take n (c # cs)))) (tokenize (drop (n - 1) cs))))"

text \<open>
  The tokens are read from left to right, one at a time, with a stack of the arrays and
  objects that are open. A frame of the stack is an array with the elements before the
  one being read, or an object with the members before and the name of the one being read.
  The mode says what may come next; \<open>Got v\<close> says that the value \<open>v\<close> is complete and
  goes into the frame on top, or is the result when there is none and the text ends.
\<close>

datatype frame =
    Element "jsval list"
  | Member "(jsstring \<times> jsval) list" jsstring

datatype mode =
    Expect_value
  | Array_start
  | Object_start
  | Expect_key "(jsstring \<times> jsval) list"
  | Expect_colon "(jsstring \<times> jsval) list" jsstring
  | Got jsval

fun begin_value :: "token \<Rightarrow> mode option" where
  "begin_value LBracket = Some Array_start"
| "begin_value LBrace = Some Object_start"
| "begin_value (TString s) = Some (Got (JStr s))"
| "begin_value (TNumber n) = Some (Got (JNum n))"
| "begin_value TTrue = Some (Got (JBool True))"
| "begin_value TFalse = Some (Got (JBool False))"
| "begin_value TNull = Some (Got JNull)"
| "begin_value _ = None"

fun parse_tokens :: "frame list \<Rightarrow> mode \<Rightarrow> token list \<Rightarrow> jsval option" where
  "parse_tokens stack (Got v) [] = (if stack = [] then Some v else None)"
| "parse_tokens stack m [] = None"
| "parse_tokens stack Expect_value (t # ts) =
     (case begin_value t of None \<Rightarrow> None | Some m \<Rightarrow> parse_tokens stack m ts)"
| "parse_tokens stack Array_start (t # ts) =
     (if t = RBracket then parse_tokens stack (Got (JArr [])) ts
      else case begin_value t of
             None \<Rightarrow> None
           | Some m \<Rightarrow> parse_tokens (Element [] # stack) m ts)"
| "parse_tokens stack Object_start (t # ts) =
     (case t of
        RBrace \<Rightarrow> parse_tokens stack (Got (JObj [])) ts
      | TString k \<Rightarrow> parse_tokens stack (Expect_colon [] k) ts
      | _ \<Rightarrow> None)"
| "parse_tokens stack (Expect_key ms) (t # ts) =
     (case t of TString k \<Rightarrow> parse_tokens stack (Expect_colon ms k) ts | _ \<Rightarrow> None)"
| "parse_tokens stack (Expect_colon ms k) (t # ts) =
     (if t = Colon then parse_tokens (Member ms k # stack) Expect_value ts else None)"
| "parse_tokens stack (Got v) (t # ts) =
     (case stack of
        [] \<Rightarrow> None
      | Element vs # stack' \<Rightarrow>
          if t = Comma then parse_tokens (Element (vs @ [v]) # stack') Expect_value ts
          else if t = RBracket then parse_tokens stack' (Got (JArr (vs @ [v]))) ts
          else None
      | Member ms k # stack' \<Rightarrow>
          if t = Comma then parse_tokens stack' (Expect_key (ms @ [(k, v)])) ts
          else if t = RBrace then parse_tokens stack' (Got (JObj (ms @ [(k, v)]))) ts
          else None)"

definition JSON_parse :: "jsstring \<Rightarrow> js_error + jsval" where
  "JSON_parse text =
     (case tokenize text of
        None \<Rightarrow> Inl SyntaxError
      | Some ts \<Rightarrow>
          (case parse_tokens [] Expect_value ts of
             None \<Rightarrow> Inl SyntaxError
           | Some v \<Rightarrow> Inr v))"

text \<open>The tokens of a serialized task and of a serialized list, for the proofs below.\<close>

definition task_tokens :: "task \<Rightarrow> token list" where
  "task_tokens t =
     [LBrace, TString (ascii ''id''), Colon, TString (task_id t), Comma,
      TString (ascii ''text''), Colon, TString (task_text t), Comma,
      TString (ascii ''isCompleted''), Colon, (if isCompleted t then TTrue else TFalse),
      RBrace]"

fun list_tokens :: "task list \<Rightarrow> token list" where
  "list_tokens [] = []"
| "list_tokens [t] = task_tokens t"
| "list_tokens (t # u # us) = task_tokens t @ Comma # list_tokens (u # us)"


section \<open>Renders\<close>

text \<open>
  The value of the platform read as a task, and as a list of tasks: it is one when it is
  what \<open>js_of_task\<close> and \<open>js_of_tasks\<close> make, and only then.
\<close>

definition task_of_js :: "jsval \<Rightarrow> task option" where
  "task_of_js v =
     (case v of
        JObj [(a, JStr i), (b, JStr t), (c, JBool d)] \<Rightarrow>
          if a = ascii ''id'' \<and> b = ascii ''text'' \<and> c = ascii ''isCompleted''
          then Some \<lparr>task_id = i, task_text = t, isCompleted = d\<rparr> else None
      | _ \<Rightarrow> None)"

definition tasks_of_js :: "jsval \<Rightarrow> task list option" where
  "tasks_of_js v = (case v of JArr xs \<Rightarrow> those (map task_of_js xs) | _ \<Rightarrow> None)"

definition as_js :: "task list app \<Rightarrow> jsval app" where
  "as_js st =
     \<lparr>tasks = js_of_tasks (tasks st), taskText = taskText st, alerts = alerts st,
      writes = writes st, tasks_ref = tasks_ref st, saved_ref = saved_ref st\<rparr>"

definition as_tasks :: "jsval app \<Rightarrow> task list app option" where
  "as_tasks st =
     map_option
       (\<lambda>ts. \<lparr>tasks = ts, taskText = taskText st, alerts = alerts st, writes = writes st,
              tasks_ref = tasks_ref st, saved_ref = saved_ref st\<rparr>)
       (tasks_of_js (tasks st))"

text \<open>
  React commits the state changes of the handler calls of one batch in one render, and the
  persistence effect runs once after that render. The handlers called in a batch are the
  closures of the last render: \<^verbatim>\<open>addTask\<close> reads the input text of that render,
  whatever the batch has typed since; the updaters given to \<^verbatim>\<open>setTasks\<close> are applied one
  after the other.

  \<open>call\<close> is one handler call, with the input text of the last render. Here
  \<^verbatim>\<open>JSON.parse\<close> answers with a value of the platform, and \<^verbatim>\<open>loadTasks\<close> puts it into the
  state whatever it is. The list stays a list of tasks as long as every hydration installs
  one; a hydration that installs another value leaves the lists of tasks, and from there
  on the run has no result (\<open>None\<close>): what the handlers do to such a value is not
  described.
\<close>

fun call ::
  "(jsstring \<Rightarrow> js_error + jsval) \<Rightarrow> jsstring \<Rightarrow> event \<Rightarrow> task list app \<Rightarrow>
     task list app option" where
  "call parse text (Loaded got) st = as_tasks (loadTasks parse got (as_js st))"
| "call parse text (ChangeText s) st = Some (setTaskText s st)"
| "call parse text (Submit now) st =
     Some (if trim text = [] then st else addTask now (setTaskText text st))"
| "call parse text (Toggle k) st = Some (toggleTask k st)"
| "call parse text (Delete k) st = Some (deleteTask k st)"

fun calls ::
  "(jsstring \<Rightarrow> js_error + jsval) \<Rightarrow> jsstring \<Rightarrow> event list \<Rightarrow> task list app \<Rightarrow>
     task list app option" where
  "calls parse text [] st = Some st"
| "calls parse text (e # es) st =
     (case call parse text e st of None \<Rightarrow> None | Some st' \<Rightarrow> calls parse text es st')"

text \<open>
  A render commits the calls of a batch and runs the persistence effect; the boolean is the
  fate of the \<^verbatim>\<open>setItem\<close> promise, should the effect issue one.
\<close>

definition commit ::
  "(jsstring \<Rightarrow> js_error + jsval) \<Rightarrow> (task list \<Rightarrow> jsstring) \<Rightarrow> event list \<times> bool \<Rightarrow>
     task list app \<Rightarrow> task list app option" where
  "commit parse stringify b st =
     map_option (persist_effect stringify (snd b)) (calls parse (taskText st) (fst b) st)"

fun commits ::
  "(jsstring \<Rightarrow> js_error + jsval) \<Rightarrow> (task list \<Rightarrow> jsstring) \<Rightarrow>
     (event list \<times> bool) list \<Rightarrow> task list app \<Rightarrow> task list app option" where
  "commits parse stringify [] st = Some st"
| "commits parse stringify (b # bs) st =
     (case commit parse stringify b st of
        None \<Rightarrow> None
      | Some st' \<Rightarrow> commits parse stringify bs st')"

text \<open>
  The calls that replace the list, as the specification counts them: a hydration whose blob
  deserializes, the addition of a text that is not blank, a toggle and a deletion. For a
  sequence of renders, \<open>writes_per_commit\<close> lists one write of the list as it is after
  each render that commits such a call, and nothing else.
\<close>

fun replaces_list :: "(jsstring \<Rightarrow> js_error + jsval) \<Rightarrow> jsstring \<Rightarrow> event \<Rightarrow> bool" where
  "replaces_list parse text (Loaded got) =
     (case got of Inr (Some s) \<Rightarrow> s \<noteq> [] \<and> \<not> isl (parse s) | _ \<Rightarrow> False)"
| "replaces_list parse text (ChangeText s) = False"
| "replaces_list parse text (Submit now) = (trim text \<noteq> [])"
| "replaces_list parse text (Toggle k) = True"
| "replaces_list parse text (Delete k) = True"

fun writes_per_commit ::
  "(jsstring \<Rightarrow> js_error + jsval) \<Rightarrow> (task list \<Rightarrow> jsstring) \<Rightarrow>
     (event list \<times> bool) list \<Rightarrow> task list app \<Rightarrow> (jsstring \<times> jsstring) list" where
  "writes_per_commit parse stringify [] st = []"
| "writes_per_commit parse stringify (b # bs) st =
     (case commit parse stringify b st of
        None \<Rightarrow> []
      | Some st' \<Rightarrow>
          (if list_ex (replaces_list parse (taskText st)) (fst b)
           then [(STORAGE_KEY, stringify (tasks st'))] else [])
          @ writes_per_commit parse stringify bs st')"

fun is_Loaded :: "event \<Rightarrow> bool" where
  "is_Loaded (Loaded got) = True"
| "is_Loaded _ = False"


section \<open>The handlers on the list\<close>

lemma tasks_setTasks: "tasks (setTasks f st) = f (tasks st)"
  by (simp add: setTasks_def)

lemma tasks_setTaskText: "tasks (setTaskText s st) = tasks st"
  by (simp add: setTaskText_def)

lemma taskText_setTaskText: "taskText (setTaskText s st) = s"
  by (simp add: setTaskText_def)

lemma tasks_addTask:
  "tasks (addTask now st) =
     (if trim (taskText st) = [] then tasks st
      else \<lparr>task_id = generateId now, task_text = trim (taskText st), isCompleted = False\<rparr>
             # tasks st)"
  by (simp add: addTask_def Let_def tasks_setTasks tasks_setTaskText)

lemma tasks_toggleTask:
  "tasks (toggleTask k st) =
     map (\<lambda>task. if task_id task = k then task\<lparr>isCompleted := \<not> isCompleted task\<rparr> else task)
       (tasks st)"
  by (simp add: toggleTask_def tasks_setTasks)

lemma tasks_deleteTask:
  "tasks (deleteTask k st) = filter (\<lambda>task. task_id task \<noteq> k) (tasks st)"
  by (simp add: deleteTask_def tasks_setTasks)

text \<open>The equations that evaluate the handlers on a concrete state.\<close>

lemmas handler_defs =
  addTask_def toggleTask_def deleteTask_def setTaskText_def setTasks_def init_app_def
  init_state_def Let_def generateId_def toString_def decimal.simps digit_def trim_def
  isWhiteSpace_def ascii_def

subsection \<open>Adding\<close>

text \<open>
  C2. Submitting the text \<open>s\<close>: when \<open>s\<close> trims to the empty string nothing changes;
  otherwise the list grows by exactly one task, which sits at index 0, carries the trimmed
  text and is not completed, and the previous tasks follow it in their order.
\<close>

theorem addTask_prepends_trimmed:
  "(trim s = [] \<longrightarrow> addTask now (setTaskText s st) = setTaskText s st) \<and>
   (trim s \<noteq> [] \<longrightarrow>
      length (tasks (addTask now (setTaskText s st))) = Suc (length (tasks st)) \<and>
      task_text (tasks (addTask now (setTaskText s st)) ! 0) = trim s \<and>
      isCompleted (tasks (addTask now (setTaskText s st)) ! 0) = False \<and>
      tl (tasks (addTask now (setTaskText s st))) = tasks st)"
  by (simp add: tasks_addTask taskText_setTaskText tasks_setTaskText)
    (simp add: addTask_def taskText_setTaskText)

theorem addTask_prepends_trimmed_witness:
  "trim (ascii '' ab '') \<noteq> [] \<and>
   tasks (addTask 17 (setTaskText (ascii '' ab '') init_app)) =
     [\<lparr>task_id = ascii ''17'', task_text = ascii ''ab'', isCompleted = False\<rparr>] \<and>
   trim (ascii ''  '') = [] \<and>
   addTask 17 (setTaskText (ascii ''  '') init_app) = setTaskText (ascii ''  '') init_app"
  using addTask_prepends_trimmed [of "ascii '' ab ''" 17 init_app]
    addTask_prepends_trimmed [of "ascii ''  ''" 17 init_app]
  by (simp add: handler_defs)

subsection \<open>The ids\<close>

text \<open>
  Toggling and deleting keep the ids of a list pairwise distinct, and so does adding as
  long as the id made from the clock is not in the list yet.
\<close>

lemma map_task_id_toggle:
  "map task_id
     (map (\<lambda>task. if task_id task = k then task\<lparr>isCompleted := \<not> isCompleted task\<rparr> else task) ts)
   = map task_id ts"
  by (induction ts) simp_all

lemma distinct_ids_toggleTask:
  "distinct (map task_id (tasks st)) \<Longrightarrow> distinct (map task_id (tasks (toggleTask k st)))"
  by (simp only: tasks_toggleTask map_task_id_toggle)

lemma distinct_ids_deleteTask:
  "distinct (map task_id (tasks st)) \<Longrightarrow> distinct (map task_id (tasks (deleteTask k st)))"
  by (simp add: tasks_deleteTask distinct_map_filter)

lemma distinct_ids_addTask:
  "distinct (map task_id (tasks st)) \<Longrightarrow> generateId now \<notin> task_id ` set (tasks st) \<Longrightarrow>
   distinct (map task_id (tasks (addTask now st)))"
  by (simp add: tasks_addTask)

text \<open>
  Readings of the clock that differ give ids that differ: the decimal numeral of a number
  determines the number.
\<close>

lemma unat_digit: "d < 10 \<Longrightarrow> unat (digit d) = 48 + d"
  by (simp add: digit_def unat_word_ariths unat_of_nat)

lemma value_decimal: "foldl (\<lambda>a c. 10 * a + (unat c - 48)) 0 (decimal n) = n"
proof (induction n rule: decimal.induct)
  case (1 n)
  show ?case
  proof (cases "n < 10")
    case True
    then show ?thesis by (subst decimal.simps) (simp add: unat_digit)
  next
    case False
    with 1 show ?thesis by (subst decimal.simps) (simp add: unat_digit)
  qed
qed

lemma decimal_inj: "decimal m = decimal n \<Longrightarrow> m = n"
  by (metis value_decimal)

lemma decimal_digits: "c \<in> set (decimal n) \<Longrightarrow> 48 \<le> unat c"
proof (induction n rule: decimal.induct)
  case (1 n)
  show ?case
  proof (cases "n < 10")
    case True
    with 1(2) show ?thesis by (subst (asm) decimal.simps) (simp add: unat_digit)
  next
    case False
    with 1 show ?thesis by (subst (asm) decimal.simps) (auto simp: unat_digit)
  qed
qed

lemma decimal_not_minus: "decimal n \<noteq> 0x2D # s"
proof
  assume "decimal n = 0x2D # s"
  then have "(0x2D :: jschar) \<in> set (decimal n)" by simp
  from decimal_digits [OF this] show False by simp
qed

lemma toString_inj:
  assumes "toString a = toString b"
  shows "a = b"
proof (cases "a < 0"; cases "b < 0")
  assume "a < 0" "b < 0"
  with assms have "nat (- a) = nat (- b)" by (simp add: toString_def decimal_inj)
  with \<open>a < 0\<close> \<open>b < 0\<close> show ?thesis by simp
next
  assume "a < 0" "\<not> b < 0"
  with assms decimal_not_minus [of "nat b" "decimal (nat (- a))"] show ?thesis
    by (simp add: toString_def)
next
  assume "\<not> a < 0" "b < 0"
  with assms decimal_not_minus [of "nat a" "decimal (nat (- b))"] show ?thesis
    by (simp add: toString_def)
next
  assume "\<not> a < 0" "\<not> b < 0"
  with assms have "nat a = nat b" by (simp add: toString_def decimal_inj)
  with \<open>\<not> a < 0\<close> \<open>\<not> b < 0\<close> show ?thesis by simp
qed

lemma generateId_inj: "generateId a = generateId b \<Longrightarrow> a = b"
  by (simp add: generateId_def toString_inj)

lemma distinct_generateId: "distinct ns \<Longrightarrow> distinct (map generateId ns)"
  by (simp add: distinct_map inj_on_def) (blast dest: generateId_inj)

text \<open>
  C1. The ids of the list are meant to be pairwise distinct in every state the program
  reaches. They are not: the id is the reading of the clock in milliseconds, so two tasks
  added within one millisecond, here at the reading 1700000000000, carry the same id.
\<close>

theorem generateId_repeats_within_a_millisecond:
  "tasks (addTask 1700000000000 (setTaskText (ascii ''b'')
      (addTask 1700000000000 (setTaskText (ascii ''a'') init_app)))) =
     [\<lparr>task_id = ascii ''1700000000000'', task_text = ascii ''b'', isCompleted = False\<rparr>,
      \<lparr>task_id = ascii ''1700000000000'', task_text = ascii ''a'', isCompleted = False\<rparr>] \<and>
   \<not> distinct (map task_id (tasks (addTask 1700000000000 (setTaskText (ascii ''b'')
      (addTask 1700000000000 (setTaskText (ascii ''a'') init_app))))))"
  by (simp add: handler_defs)

subsection \<open>Toggling\<close>

lemma toggle_twice:
  "map (\<lambda>task. if task_id task = k then task\<lparr>isCompleted := \<not> isCompleted task\<rparr> else task)
     (map (\<lambda>task. if task_id task = k then task\<lparr>isCompleted := \<not> isCompleted task\<rparr> else task)
        ts)
   = ts"
  by (induction ts) auto

lemma toggle_absent:
  "k \<notin> task_id ` set ts \<Longrightarrow>
   map (\<lambda>task. if task_id task = k then task\<lparr>isCompleted := \<not> isCompleted task\<rparr> else task) ts
   = ts"
  by (induction ts) auto

lemma toggle_at:
  "distinct (map task_id ts) \<Longrightarrow> i < length ts \<Longrightarrow> task_id (ts ! i) = k \<Longrightarrow>
   map (\<lambda>task. if task_id task = k then task\<lparr>isCompleted := \<not> isCompleted task\<rparr> else task) ts
     = ts[i := (ts ! i)\<lparr>isCompleted := \<not> isCompleted (ts ! i)\<rparr>]"
proof (induction ts arbitrary: i)
  case Nil
  then show ?case by simp
next
  case (Cons t ts)
  show ?case
  proof (cases i)
    case 0
    with Cons.prems have "k \<notin> task_id ` set ts" by auto
    then show ?thesis using 0 Cons.prems by (simp add: toggle_absent)
  next
    case (Suc j)
    with Cons.prems have "task_id t \<noteq> k" by (auto simp: image_iff)
    then show ?thesis using Suc Cons by simp
  qed
qed

text \<open>
  C3 as the specification states it, for every list: a toggle flips the one task of the id
  and leaves every other task alone. In a list where two tasks share the id, as after two
  additions within the millisecond 7, the toggle flips both.
\<close>

theorem toggleTask_flips_every_task_of_the_id:
  "tasks (toggleTask (ascii ''7'')
      (addTask 7 (setTaskText (ascii ''b'') (addTask 7 (setTaskText (ascii ''a'') init_app))))) =
     [\<lparr>task_id = ascii ''7'', task_text = ascii ''b'', isCompleted = True\<rparr>,
      \<lparr>task_id = ascii ''7'', task_text = ascii ''a'', isCompleted = True\<rparr>]"
  by (simp add: handler_defs)

text \<open>
  C3 as the program has it. In a list whose ids are pairwise distinct, toggling an id that is in the
  list changes the list at one index only, where it negates \<open>isCompleted\<close> and nothing
  else; the order stays. In every list, toggling twice gives the list back, and toggling an
  id that is not in the list changes nothing.
\<close>

theorem toggleTask_flips_one:
  "(distinct (map task_id (tasks st)) \<and> k \<in> task_id ` set (tasks st) \<longrightarrow>
      (\<exists>i < length (tasks st). task_id (tasks st ! i) = k \<and>
         tasks (toggleTask k st) =
           (tasks st)[i := (tasks st ! i)\<lparr>isCompleted := \<not> isCompleted (tasks st ! i)\<rparr>])) \<and>
   tasks (toggleTask k (toggleTask k st)) = tasks st \<and>
   (k \<notin> task_id ` set (tasks st) \<longrightarrow> tasks (toggleTask k st) = tasks st)"
proof (intro conjI impI)
  assume a: "distinct (map task_id (tasks st)) \<and> k \<in> task_id ` set (tasks st)"
  then obtain i where i: "i < length (tasks st)" "task_id (tasks st ! i) = k"
    by (auto simp: in_set_conv_nth)
  with a show "\<exists>i < length (tasks st). task_id (tasks st ! i) = k \<and>
         tasks (toggleTask k st) =
           (tasks st)[i := (tasks st ! i)\<lparr>isCompleted := \<not> isCompleted (tasks st ! i)\<rparr>]"
    using toggle_at [of "tasks st" i k] by (auto simp: tasks_toggleTask)
next
  show "tasks (toggleTask k (toggleTask k st)) = tasks st"
    by (simp only: tasks_toggleTask toggle_twice)
next
  assume "k \<notin> task_id ` set (tasks st)"
  then show "tasks (toggleTask k st) = tasks st"
    by (simp add: tasks_toggleTask toggle_absent)
qed

theorem toggleTask_flips_one_witness:
  "distinct (map task_id (tasks (addTask 8 (setTaskText (ascii ''b'')
      (addTask 7 (setTaskText (ascii ''a'') init_app)))))) \<and>
   tasks (toggleTask (ascii ''7'') (addTask 8 (setTaskText (ascii ''b'')
      (addTask 7 (setTaskText (ascii ''a'') init_app))))) =
     [\<lparr>task_id = ascii ''8'', task_text = ascii ''b'', isCompleted = False\<rparr>,
      \<lparr>task_id = ascii ''7'', task_text = ascii ''a'', isCompleted = True\<rparr>] \<and>
   tasks (toggleTask (ascii ''9'') (addTask 8 (setTaskText (ascii ''b'')
      (addTask 7 (setTaskText (ascii ''a'') init_app))))) =
     [\<lparr>task_id = ascii ''8'', task_text = ascii ''b'', isCompleted = False\<rparr>,
      \<lparr>task_id = ascii ''7'', task_text = ascii ''a'', isCompleted = False\<rparr>]"
  using toggleTask_flips_one [of "addTask 8 (setTaskText (ascii ''b'')
      (addTask 7 (setTaskText (ascii ''a'') init_app)))" "ascii ''7''"]
    toggleTask_flips_one [of "addTask 8 (setTaskText (ascii ''b'')
      (addTask 7 (setTaskText (ascii ''a'') init_app)))" "ascii ''9''"]
  by (simp add: handler_defs)

subsection \<open>Deleting\<close>

lemma delete_absent:
  "k \<notin> task_id ` set ts \<Longrightarrow> filter (\<lambda>task. task_id task \<noteq> k) ts = ts"
  by (induction ts) auto

lemma delete_at:
  assumes "distinct (map task_id ts)" and "k \<in> task_id ` set ts"
  shows "\<exists>ys t zs. ts = ys @ t # zs \<and> task_id t = k \<and>
           filter (\<lambda>task. task_id task \<noteq> k) ts = ys @ zs"
proof -
  from assms(2) obtain t where t: "t \<in> set ts" "task_id t = k" by auto
  then obtain ys zs where s: "ts = ys @ t # zs" by (auto simp: in_set_conv_decomp)
  with assms(1) t have "k \<notin> task_id ` set ys" "k \<notin> task_id ` set zs" by auto
  then have "filter (\<lambda>task. task_id task \<noteq> k) ts = ys @ zs"
    using s t by (simp add: delete_absent)
  with s t show ?thesis by blast
qed

text \<open>
  C4 as the specification states it, for every list: a deletion removes exactly the one
  task of the id. From a list of three tasks, two of them added within the millisecond 7,
  deleting the id 7 removes two tasks.
\<close>

theorem deleteTask_removes_every_task_of_the_id:
  "tasks (deleteTask (ascii ''7'')
      (addTask 8 (setTaskText (ascii ''c'')
        (addTask 7 (setTaskText (ascii ''b'')
          (addTask 7 (setTaskText (ascii ''a'') init_app))))))) =
     [\<lparr>task_id = ascii ''8'', task_text = ascii ''c'', isCompleted = False\<rparr>]"
  by (simp add: handler_defs)

text \<open>
  C4 as the program has it. In a list whose ids are pairwise distinct, deleting an id that is in the
  list removes exactly one task, the one of that id, and the tasks before it and behind it
  stay as they are and in their order. In every list, deleting an id that is not in the
  list changes nothing.
\<close>

theorem deleteTask_removes_one:
  "(distinct (map task_id (tasks st)) \<and> k \<in> task_id ` set (tasks st) \<longrightarrow>
      (\<exists>ys t zs. tasks st = ys @ t # zs \<and> task_id t = k \<and>
         tasks (deleteTask k st) = ys @ zs)) \<and>
   (k \<notin> task_id ` set (tasks st) \<longrightarrow> tasks (deleteTask k st) = tasks st)"
  by (auto simp: tasks_deleteTask delete_absent dest: delete_at)

theorem deleteTask_removes_one_witness:
  "distinct (map task_id (tasks (addTask 8 (setTaskText (ascii ''b'')
      (addTask 7 (setTaskText (ascii ''a'') init_app)))))) \<and>
   tasks (deleteTask (ascii ''8'') (addTask 8 (setTaskText (ascii ''b'')
      (addTask 7 (setTaskText (ascii ''a'') init_app))))) =
     [\<lparr>task_id = ascii ''7'', task_text = ascii ''a'', isCompleted = False\<rparr>] \<and>
   tasks (deleteTask (ascii ''9'') (addTask 8 (setTaskText (ascii ''b'')
      (addTask 7 (setTaskText (ascii ''a'') init_app))))) =
     [\<lparr>task_id = ascii ''8'', task_text = ascii ''b'', isCompleted = False\<rparr>,
      \<lparr>task_id = ascii ''7'', task_text = ascii ''a'', isCompleted = False\<rparr>]"
  using deleteTask_removes_one [of "addTask 8 (setTaskText (ascii ''b'')
      (addTask 7 (setTaskText (ascii ''a'') init_app)))" "ascii ''8''"]
    deleteTask_removes_one [of "addTask 8 (setTaskText (ascii ''b'')
      (addTask 7 (setTaskText (ascii ''a'') init_app)))" "ascii ''9''"]
  by (simp add: handler_defs)

text \<open>
  C9. In every list, with or without repeated ids, a deletion is the filter on the id: no
  task of the id is left, the others stay in their order, and the number of tasks removed is
  the number of tasks that had the id, which may be more than one.
\<close>

theorem deleteTask_removes_all:
  "tasks (deleteTask k st) = filter (\<lambda>task. task_id task \<noteq> k) (tasks st) \<and>
   k \<notin> task_id ` set (tasks (deleteTask k st)) \<and>
   length (tasks (deleteTask k st)) + length (filter (\<lambda>task. task_id task = k) (tasks st))
     = length (tasks st)"
  using sum_length_filter_compl [of "\<lambda>task. task_id task = k" "tasks st"]
  by (auto simp: tasks_deleteTask)

theorem deleteTask_removes_all_witness:
  "length (filter (\<lambda>task. task_id task = ascii ''7'')
     (tasks (addTask 8 (setTaskText (ascii ''c'') (addTask 7 (setTaskText (ascii ''b'')
        (addTask 7 (setTaskText (ascii ''a'') init_app)))))))) = 2 \<and>
   length (tasks (addTask 8 (setTaskText (ascii ''c'') (addTask 7 (setTaskText (ascii ''b'')
        (addTask 7 (setTaskText (ascii ''a'') init_app))))))) = 3 \<and>
   length (tasks (deleteTask (ascii ''7'')
      (addTask 8 (setTaskText (ascii ''c'') (addTask 7 (setTaskText (ascii ''b'')
        (addTask 7 (setTaskText (ascii ''a'') init_app)))))))) = 1 \<and>
   ascii ''7'' \<notin> task_id ` set (tasks (deleteTask (ascii ''7'')
      (addTask 8 (setTaskText (ascii ''c'') (addTask 7 (setTaskText (ascii ''b'')
        (addTask 7 (setTaskText (ascii ''a'') init_app))))))))"
  using deleteTask_removes_all [of "ascii ''7''"
      "addTask 8 (setTaskText (ascii ''c'') (addTask 7 (setTaskText (ascii ''b'')
        (addTask 7 (setTaskText (ascii ''a'') init_app)))))"]
  by (simp add: handler_defs)


section \<open>The round trip through the serialization\<close>

subsection \<open>Texts that are JSON and texts that are not\<close>

lemmas JSON_defs =
  JSON_parse_def ascii_def isJSONWhiteSpace_def starts_with_def lex_number_def lex_int_def
  lex_frac_def lex_exp_def isDigit_def Let_def unescape_def hex4_def hexValue_def

lemma JSON_parse_accepts:
  "JSON_parse (ascii '' [ ] '') = Inr (JArr [])"
  "JSON_parse (ascii ''{}'') = Inr (JObj [])"
  "JSON_parse (ascii ''-1.5e+3'') = Inr (JNum (ascii ''-1.5e+3''))"
  "JSON_parse (ascii ''[null,[true,false],0]'') =
     Inr (JArr [JNull, JArr [JBool True, JBool False], JNum (ascii ''0'')])"
  "JSON_parse [0x22, 0x5C, 0x75, 0x30, 0x30, 0x34, 0x31, 0x5C, 0x6E, 0x22] =
     Inr (JStr [0x41, 0x0A])"
  by (simp_all add: JSON_defs)

lemma JSON_parse_rejects:
  "JSON_parse [] = Inl SyntaxError"
  "JSON_parse (ascii ''[1,]'') = Inl SyntaxError"
  "JSON_parse (ascii ''[1 2]'') = Inl SyntaxError"
  "JSON_parse (ascii ''01'') = Inl SyntaxError"
  "JSON_parse (ascii ''1.'') = Inl SyntaxError"
  "JSON_parse (ascii ''{a:1}'') = Inl SyntaxError"
  "JSON_parse (ascii ''[[]'') = Inl SyntaxError"
  "JSON_parse (ascii ''[]]'') = Inl SyntaxError"
  "JSON_parse (ascii ''nul'') = Inl SyntaxError"
  "JSON_parse (ascii ''undefined'') = Inl SyntaxError"
  "JSON_parse [0x22, 0x61] = Inl SyntaxError"
  "JSON_parse [0x22, 0x09, 0x22] = Inl SyntaxError"
  by (simp_all add: JSON_defs)

subsection \<open>Strings\<close>

lemma unat_hexDigit: "d < 16 \<Longrightarrow> unat (hexDigit d) = (if d < 10 then 48 + d else 87 + d)"
  by (simp add: hexDigit_def unat_word_ariths unat_of_nat)

lemma hexValue_hexDigit: "d < 16 \<Longrightarrow> hexValue (hexDigit d) = Some d"
  by (simp add: hexValue_def word_le_nat_alt unat_hexDigit)

lemma nibbles:
  fixes n :: nat
  shows "((n div 4096 * 16 + n div 256 mod 16) * 16 + n div 16 mod 16) * 16 + n mod 16 = n"
proof -
  have a: "n div 256 = n div 16 div 16" by (simp add: div_mult2_eq)
  have b: "n div 4096 = n div 256 div 16" by (simp add: div_mult2_eq)
  have "n div 4096 * 16 + n div 256 mod 16 = n div 256"
    unfolding b by (rule div_mult_mod_eq)
  moreover have "n div 256 * 16 + n div 16 mod 16 = n div 16"
    unfolding a by (rule div_mult_mod_eq)
  moreover have "n div 16 * 16 + n mod 16 = n"
    by (rule div_mult_mod_eq)
  ultimately show ?thesis by simp
qed

lemma hex4_UnicodeEscape:
  "hex4 (hexDigit (unat c div 4096)) (hexDigit (unat c div 256 mod 16))
        (hexDigit (unat c div 16 mod 16)) (hexDigit (unat c mod 16)) = Some c"
proof -
  have "unat c < 2 ^ 16" using unsigned_less [of c, where 'a = nat] by simp
  then have "unat c div 4096 < 16" by simp
  then have "hex4 (hexDigit (unat c div 4096)) (hexDigit (unat c div 256 mod 16))
        (hexDigit (unat c div 16 mod 16)) (hexDigit (unat c mod 16)) =
      Some (of_nat (((unat c div 4096 * 16 + unat c div 256 mod 16) * 16
        + unat c div 16 mod 16) * 16 + unat c mod 16))"
    unfolding hex4_def by (simp add: hexValue_hexDigit del: of_nat_add of_nat_mult)
  also have "\<dots> = Some (of_nat (unat c))" by (simp only: nibbles)
  also have "\<dots> = Some c" by simp
  finally show ?thesis .
qed

lemma lex_string_UnicodeEscape:
  "lex_string rest = Some (s, n) \<Longrightarrow> lex_string (UnicodeEscape c @ rest) = Some (c # s, n + 6)"
  by (simp add: UnicodeEscape_def hex4_UnicodeEscape)

lemma length_UnicodeEscape: "length (UnicodeEscape c) = 6"
  by (simp add: UnicodeEscape_def)

lemma lex_string_quoteCodeUnit:
  assumes "lex_string rest = Some (s, n)"
  shows "lex_string (quoteCodeUnit c @ rest) = Some (c # s, n + length (quoteCodeUnit c))"
proof -
  let ?T = "c = 0x08 \<or> c = 0x09 \<or> c = 0x0A \<or> c = 0x0C \<or> c = 0x0D \<or> c = 0x22 \<or> c = 0x5C"
  let ?E = "c < 0x20 \<or> isLeadingSurrogate c \<or> isTrailingSurrogate c"
  consider (table) ?T | (escape) "\<not> ?T" ?E | (plain) "\<not> ?T" "\<not> ?E"
    by blast
  then show ?thesis
  proof cases
    case table
    then show ?thesis using assms by (auto simp: quoteCodeUnit_def unescape_def)
  next
    case escape
    then have "quoteCodeUnit c = UnicodeEscape c" by (simp add: quoteCodeUnit_def)
    then show ?thesis
      using lex_string_UnicodeEscape [OF assms, of c] by (simp only: length_UnicodeEscape)
  next
    case plain
    then have "quoteCodeUnit c = [c]" by (simp add: quoteCodeUnit_def)
    with plain show ?thesis using assms by simp
  qed
qed

lemma lex_string_pair:
  "isLeadingSurrogate c \<Longrightarrow> isTrailingSurrogate d \<Longrightarrow> lex_string rest = Some (s, n) \<Longrightarrow>
   lex_string (c # d # rest) = Some (c # d # s, n + 2)"
  by (auto simp: isLeadingSurrogate_def isTrailingSurrogate_def word_le_nat_alt
      word_less_nat_alt)

lemma lex_string_quoteCodePoints:
  "lex_string (quoteCodePoints s @ 0x22 # rest) = Some (s, Suc (length (quoteCodePoints s)))"
proof (induction s rule: quoteCodePoints.induct)
  case 1
  show ?case by simp
next
  case (2 c)
  have "lex_string (0x22 # rest) = Some ([], 1)" by simp
  from lex_string_quoteCodeUnit [OF this, of c] show ?case by simp
next
  case (3 c d cs)
  show ?case
  proof (cases "isLeadingSurrogate c \<and> isTrailingSurrogate d")
    case True
    then have q: "quoteCodePoints (c # d # cs) = c # d # quoteCodePoints cs" by simp
    from True lex_string_pair [OF _ _ 3(1)] show ?thesis
      unfolding q by simp
  next
    case False
    then have q: "quoteCodePoints (c # d # cs) = quoteCodeUnit c @ quoteCodePoints (d # cs)"
      by auto
    from lex_string_quoteCodeUnit [OF 3(2) [OF False], of c] show ?thesis
      unfolding q by simp
  qed
qed

subsection \<open>Tokens\<close>

lemma tokenize_QuoteJSONString:
  "tokenize rest = Some r \<Longrightarrow> tokenize (QuoteJSONString s @ rest) = Some (TString s # r)"
  by (simp add: QuoteJSONString_def isJSONWhiteSpace_def lex_string_quoteCodePoints)

lemma tokenize_punct:
  "tokenize rest = Some r \<Longrightarrow> tokenize (0x7B # rest) = Some (LBrace # r)"
  "tokenize rest = Some r \<Longrightarrow> tokenize (0x7D # rest) = Some (RBrace # r)"
  "tokenize rest = Some r \<Longrightarrow> tokenize (0x5B # rest) = Some (LBracket # r)"
  "tokenize rest = Some r \<Longrightarrow> tokenize (0x5D # rest) = Some (RBracket # r)"
  "tokenize rest = Some r \<Longrightarrow> tokenize (0x3A # rest) = Some (Colon # r)"
  "tokenize rest = Some r \<Longrightarrow> tokenize (0x2C # rest) = Some (Comma # r)"
  by (simp_all add: isJSONWhiteSpace_def)

lemma tokenize_bool:
  "tokenize rest = Some r \<Longrightarrow>
   tokenize ((if b then ascii ''true'' else ascii ''false'') @ rest)
     = Some ((if b then TTrue else TFalse) # r)"
  by (simp add: ascii_def isJSONWhiteSpace_def starts_with_def)

lemma tokenize_stringify_task:
  assumes "tokenize rest = Some r"
  shows "tokenize (stringify_task t @ rest) = Some (task_tokens t @ r)"
proof -
  note p = tokenize_punct tokenize_QuoteJSONString tokenize_bool
  have 1: "tokenize (0x7D # rest) = Some (RBrace # r)" by (rule p) (rule assms)
  have 2: "tokenize ((if isCompleted t then ascii ''true'' else ascii ''false'') @ 0x7D # rest)
      = Some ((if isCompleted t then TTrue else TFalse) # RBrace # r)" by (rule p) (rule 1)
  have 3: "tokenize (QuoteJSONString (ascii ''isCompleted'') @ 0x3A #
      (if isCompleted t then ascii ''true'' else ascii ''false'') @ 0x7D # rest)
      = Some (TString (ascii ''isCompleted'') # Colon #
          (if isCompleted t then TTrue else TFalse) # RBrace # r)"
    by (intro p 2)
  have 4: "tokenize (QuoteJSONString (ascii ''text'') @ 0x3A #
      QuoteJSONString (task_text t) @ 0x2C #
      QuoteJSONString (ascii ''isCompleted'') @ 0x3A #
      (if isCompleted t then ascii ''true'' else ascii ''false'') @ 0x7D # rest)
      = Some (TString (ascii ''text'') # Colon # TString (task_text t) # Comma #
         TString (ascii ''isCompleted'') # Colon #
         (if isCompleted t then TTrue else TFalse) # RBrace # r)"
    by (intro p 3)
  have 5: "tokenize (0x7B # QuoteJSONString (ascii ''id'') @ 0x3A #
      QuoteJSONString (task_id t) @ 0x2C #
      QuoteJSONString (ascii ''text'') @ 0x3A # QuoteJSONString (task_text t) @ 0x2C #
      QuoteJSONString (ascii ''isCompleted'') @ 0x3A #
      (if isCompleted t then ascii ''true'' else ascii ''false'') @ 0x7D # rest)
      = Some (LBrace # TString (ascii ''id'') # Colon # TString (task_id t) # Comma #
         TString (ascii ''text'') # Colon # TString (task_text t) # Comma #
         TString (ascii ''isCompleted'') # Colon #
         (if isCompleted t then TTrue else TFalse) # RBrace # r)"
    by (intro p 4)
  show ?thesis
    unfolding stringify_task_def task_tokens_def using 5 by (simp del: tokenize.simps)
qed

lemma tokenize_join_comma:
  "tokenize rest = Some r \<Longrightarrow>
   tokenize (join_comma (map stringify_task ts) @ rest) = Some (list_tokens ts @ r)"
proof (induction ts rule: list_tokens.induct)
  case 1
  then show ?case by simp
next
  case (2 t)
  then show ?case by (simp add: tokenize_stringify_task del: tokenize.simps)
next
  case (3 t u us)
  from 3 have "tokenize (join_comma (map stringify_task (u # us)) @ rest)
      = Some (list_tokens (u # us) @ r)" by simp
  then have "tokenize (0x2C # join_comma (map stringify_task (u # us)) @ rest)
      = Some (Comma # list_tokens (u # us) @ r)" by (rule tokenize_punct)
  from tokenize_stringify_task [OF this, of t] show ?case by (simp del: tokenize.simps)
qed

lemma tokenize_JSON_stringify:
  "tokenize (JSON_stringify ts) = Some (LBracket # list_tokens ts @ [RBracket])"
proof -
  have "tokenize [0x5D] = Some [RBracket]" by (simp add: isJSONWhiteSpace_def)
  from tokenize_punct(3) [OF tokenize_join_comma [OF this, of ts]]
  show ?thesis by (simp add: JSON_stringify_def del: tokenize.simps)
qed

subsection \<open>Values\<close>

lemma parse_task_tokens:
  "parse_tokens stack Expect_value (task_tokens t @ rest) =
     parse_tokens stack (Got (js_of_task t)) rest"
  by (simp add: task_tokens_def js_of_task_def)

lemma parse_list_tokens:
  "parse_tokens (Element vs # stack) Expect_value (list_tokens (t # ts) @ RBracket # rest) =
     parse_tokens stack (Got (JArr (vs @ map js_of_task (t # ts)))) rest"
proof (induction ts arbitrary: t vs)
  case Nil
  show ?case by (simp add: parse_task_tokens)
next
  case (Cons u us)
  show ?case using Cons [of "vs @ [js_of_task t]" u] by (simp add: parse_task_tokens)
qed

lemma parse_Array_start:
  "parse_tokens stack Array_start (list_tokens (t # ts) @ RBracket # rest) =
     parse_tokens (Element [] # stack) Expect_value (list_tokens (t # ts) @ RBracket # rest)"
  by (cases ts) (simp_all add: task_tokens_def)

lemma parse_JSON_stringify:
  "parse_tokens [] Expect_value (LBracket # list_tokens ts @ [RBracket]) = Some (js_of_tasks ts)"
proof (cases ts)
  case Nil
  then show ?thesis by (simp add: js_of_tasks_def)
next
  case (Cons t us)
  have "parse_tokens [] Expect_value (LBracket # list_tokens (t # us) @ [RBracket]) =
        parse_tokens [] Array_start (list_tokens (t # us) @ [RBracket])" by simp
  also have "\<dots> = parse_tokens [Element []] Expect_value (list_tokens (t # us) @ [RBracket])"
    by (rule parse_Array_start)
  also have "\<dots> = parse_tokens [] (Got (JArr ([] @ map js_of_task (t # us)))) []"
    by (rule parse_list_tokens)
  finally show ?thesis using Cons by (simp add: js_of_tasks_def)
qed

lemma js_of_tasks_inj: "js_of_tasks ts = js_of_tasks us \<Longrightarrow> ts = us"
  by (induction ts arbitrary: us) (auto simp: js_of_tasks_def js_of_task_def)

lemma JSON_stringify_not_empty: "JSON_stringify ts \<noteq> []"
  by (simp add: JSON_stringify_def)

subsection \<open>Lists of tasks\<close>

lemma JSON_parse_JSON_stringify: "JSON_parse (JSON_stringify xs) = Inr (js_of_tasks xs)"
  by (simp add: JSON_parse_def tokenize_JSON_stringify parse_JSON_stringify
      del: parse_tokens.simps)

text \<open>
  C5. For every list of tasks, and so for every list that additions, toggles and deletions
  produce from the empty list: \<^verbatim>\<open>JSON.parse\<close> accepts what \<^verbatim>\<open>JSON.stringify\<close> wrote and
  answers with the array of the same tasks in the same order, each an object with the
  fields \<^verbatim>\<open>id\<close>, \<^verbatim>\<open>text\<close>, \<^verbatim>\<open>isCompleted\<close>, the first two strings and the third a
  boolean, of the same values; two lists with the same array are the same list; and
  \<^verbatim>\<open>loadTasks\<close>, given what \<^verbatim>\<open>saveTasks\<close> wrote, puts that array into the state.
\<close>

theorem JSON_round_trip:
  "JSON_parse (JSON_stringify ts) = Inr (js_of_tasks ts) \<and>
   (js_of_tasks ts = js_of_tasks us \<longrightarrow> ts = us) \<and>
   tasks (loadTasks JSON_parse (Inr (Some (JSON_stringify ts))) st) = js_of_tasks ts \<and>
   JSON_parse (JSON_stringify (tasks (run parse stringify es init_app))) =
     Inr (js_of_tasks (tasks (run parse stringify es init_app)))"
proof -
  have rt: "JSON_parse (JSON_stringify xs) = Inr (js_of_tasks xs)" for xs
    by (simp add: JSON_parse_def tokenize_JSON_stringify parse_JSON_stringify
        del: parse_tokens.simps)
  have "tasks (loadTasks JSON_parse (Inr (Some (JSON_stringify ts))) st) = js_of_tasks ts"
    by (simp add: loadTasks_def rt JSON_stringify_not_empty setTasks_def)
  with rt js_of_tasks_inj show ?thesis by blast
qed

theorem JSON_round_trip_witness:
  "JSON_stringify [] = ascii ''[]'' \<and>
   JSON_parse (JSON_stringify
      [\<lparr>task_id = ascii ''8'', task_text = ascii ''Walk dog'', isCompleted = False\<rparr>,
       \<lparr>task_id = ascii ''7'', task_text = ascii ''Buy milk'', isCompleted = True\<rparr>]) =
     Inr (JArr
      [JObj [(ascii ''id'', JStr (ascii ''8'')), (ascii ''text'', JStr (ascii ''Walk dog'')),
             (ascii ''isCompleted'', JBool False)],
       JObj [(ascii ''id'', JStr (ascii ''7'')), (ascii ''text'', JStr (ascii ''Buy milk'')),
             (ascii ''isCompleted'', JBool True)]])"
  using JSON_round_trip
    [of "[\<lparr>task_id = ascii ''8'', task_text = ascii ''Walk dog'', isCompleted = False\<rparr>,
          \<lparr>task_id = ascii ''7'', task_text = ascii ''Buy milk'', isCompleted = True\<rparr>]"
      "[]" "init_state JNull" "\<lambda>_. Inl SyntaxError" JSON_stringify "[]"]
  by (simp add: js_of_tasks_def js_of_task_def) (simp add: JSON_stringify_def ascii_def)


section \<open>Hydration\<close>

text \<open>
  C10. A stored blob that is the empty string is treated as no blob at all: the state stays
  as it is, nothing is reported, and the result does not depend on what \<^verbatim>\<open>JSON.parse\<close>
  would answer, since it is not asked.
\<close>

theorem loadTasks_skips_empty_string:
  "loadTasks parse (Inr (Some [])) st = st \<and>
   loadTasks parse (Inr (Some [])) st = loadTasks parse (Inr None) st"
  by (simp add: loadTasks_def)

text \<open>
  C6 as the specification states it: a blob that is present and does not deserialize is
  reported. The empty string is such a blob, \<^verbatim>\<open>JSON.parse\<close> rejects it, and hydration
  reports nothing.
\<close>

theorem loadTasks_silent_on_empty_blob:
  "JSON_parse [] = Inl SyntaxError \<and>
   loadTasks JSON_parse (Inr (Some [])) (init_state (JArr [])) = init_state (JArr []) \<and>
   alerts (loadTasks JSON_parse (Inr (Some [])) (init_state (JArr []))) = []"
  by (simp add: loadTasks_def JSON_parse_def init_state_def)

text \<open>
  C6 as the program has it. Hydration always ends in a state. When the blob is absent or is
  the empty string, the state stays as it is and nothing is reported. When the blob is a
  non-empty string that does not deserialize, or the read itself fails, the failure is
  reported by one alert and the state is otherwise as before. When a non-empty blob
  deserializes to a list of tasks, that list takes the place of the list in the state, and
  nothing is reported.
\<close>

theorem loadTasks_fail_safe:
  "(got = Inr None \<or> got = Inr (Some []) \<longrightarrow> loadTasks parse got st = st) \<and>
   (got = Inr (Some s) \<and> s \<noteq> [] \<and> parse s = Inl e \<longrightarrow>
      loadTasks parse got st = st\<lparr>alerts := alerts st @ [Erro_ao_carregar]\<rparr>) \<and>
   (got = Inl e \<longrightarrow>
      loadTasks parse got st = st\<lparr>alerts := alerts st @ [Erro_ao_carregar]\<rparr>) \<and>
   (got = Inr (Some s) \<and> s \<noteq> [] \<and> parse s = Inr (js_of_tasks ts) \<longrightarrow>
      tasks (loadTasks parse got st) = js_of_tasks ts \<and>
      alerts (loadTasks parse got st) = alerts st \<and>
      taskText (loadTasks parse got st) = taskText st)"
  by (auto simp: loadTasks_def setTasks_def)

theorem loadTasks_fail_safe_witness:
  "loadTasks JSON_parse (Inr None) (init_state (js_of_tasks [])) = init_state (js_of_tasks []) \<and>
   ascii ''[{'' \<noteq> [] \<and>
   JSON_parse (ascii ''[{'') = Inl SyntaxError \<and>
   loadTasks JSON_parse (Inr (Some (ascii ''[{''))) (init_state (js_of_tasks [])) =
     (init_state (js_of_tasks []))\<lparr>alerts := [Erro_ao_carregar]\<rparr> \<and>
   loadTasks JSON_parse (Inl StorageError) (init_state (js_of_tasks [])) =
     (init_state (js_of_tasks []))\<lparr>alerts := [Erro_ao_carregar]\<rparr> \<and>
   JSON_stringify [\<lparr>task_id = ascii ''7'', task_text = ascii ''a'', isCompleted = True\<rparr>]
     \<noteq> [] \<and>
   JSON_parse (JSON_stringify
       [\<lparr>task_id = ascii ''7'', task_text = ascii ''a'', isCompleted = True\<rparr>]) =
     Inr (js_of_tasks
       [\<lparr>task_id = ascii ''7'', task_text = ascii ''a'', isCompleted = True\<rparr>]) \<and>
   tasks (loadTasks JSON_parse (Inr (Some (JSON_stringify
       [\<lparr>task_id = ascii ''7'', task_text = ascii ''a'', isCompleted = True\<rparr>])))
       (init_state (js_of_tasks []))) =
     js_of_tasks [\<lparr>task_id = ascii ''7'', task_text = ascii ''a'', isCompleted = True\<rparr>]"
  using
    loadTasks_fail_safe [of "Inr None" JSON_parse "init_state (js_of_tasks [])" "[]"
       SyntaxError "[]"]
    loadTasks_fail_safe [of "Inr (Some (ascii ''[{''))" JSON_parse
       "init_state (js_of_tasks [])" "ascii ''[{''" SyntaxError "[]"]
    loadTasks_fail_safe [of "Inl StorageError" JSON_parse "init_state (js_of_tasks [])" "[]"
       StorageError "[]"]
    loadTasks_fail_safe [of "Inr (Some (JSON_stringify
       [\<lparr>task_id = ascii ''7'', task_text = ascii ''a'', isCompleted = True\<rparr>]))" JSON_parse
       "init_state (js_of_tasks [])"
       "JSON_stringify [\<lparr>task_id = ascii ''7'', task_text = ascii ''a'', isCompleted = True\<rparr>]"
       SyntaxError "[\<lparr>task_id = ascii ''7'', task_text = ascii ''a'', isCompleted = True\<rparr>]"]
  by (simp add: JSON_parse_JSON_stringify JSON_stringify_not_empty)
    (simp add: JSON_parse_def ascii_def isJSONWhiteSpace_def init_state_def)


section \<open>Persistence\<close>

text \<open>The equations that evaluate a run of the component on concrete events.\<close>

lemmas machine_defs =
  step_def persist_effect_def saveTasks_def mount_def rendered_def

lemma handle_untouched:
  "saved_ref (handle parse ev st) = saved_ref st \<and>
   writes (handle parse ev st) = writes st \<and>
   tasks_ref (handle parse ev st) =
     (if observed_change parse ev st then Suc (tasks_ref st) else tasks_ref st) \<and>
   (observed_change parse ev st \<longrightarrow> alerts (handle parse ev st) = alerts st)"
  by (cases ev)
    (auto simp: loadTasks_def setTasks_def setTaskText_def addTask_def toggleTask_def
      deleteTask_def Let_def split: sum.splits option.splits)

lemma step_changes:
  assumes "rendered st" and "observed_change parse (fst e) st"
  shows "step parse stringify e st =
     (handle parse (fst e) st)
       \<lparr>alerts := alerts st @ (if snd e then [] else [Erro_ao_salvar]),
        writes := writes st @ [(STORAGE_KEY, stringify (tasks (handle parse (fst e) st)))],
        saved_ref := Some (Suc (tasks_ref st))\<rparr>"
  using assms handle_untouched [of parse "fst e" st]
  by (simp add: step_def persist_effect_def saveTasks_def rendered_def Let_def)

subsection \<open>The writes of the renders\<close>

lemma task_of_js_js_of_task: "task_of_js (js_of_task t) = Some t"
  by (simp add: task_of_js_def js_of_task_def)

lemma those_map_Some: "those (map f xs) = Some ys \<longleftrightarrow> map f xs = map Some ys"
  by (induction xs arbitrary: ys) (auto split: option.splits)

lemma tasks_of_js_js_of_tasks: "tasks_of_js (js_of_tasks ts) = Some ts"
  by (simp add: tasks_of_js_def js_of_tasks_def those_map_Some comp_def task_of_js_js_of_task)

lemma task_of_js_Some: "task_of_js v = Some t \<Longrightarrow> v = js_of_task t"
  by (auto simp: task_of_js_def js_of_task_def
      split: jsval.splits list.splits prod.splits if_splits)

lemma tasks_of_js_Some: "tasks_of_js v = Some ts \<Longrightarrow> v = js_of_tasks ts"
proof -
  assume a: "tasks_of_js v = Some ts"
  then obtain xs where v: "v = JArr xs" and m: "map task_of_js xs = map Some ts"
    by (auto simp: tasks_of_js_def those_map_Some split: jsval.splits)
  from m have "xs = map js_of_task ts"
  proof (induction xs arbitrary: ts)
    case Nil
    then show ?case by simp
  next
    case (Cons x xs)
    then show ?case by (cases ts) (auto dest: task_of_js_Some)
  qed
  with v show ?thesis by (simp add: js_of_tasks_def)
qed

lemma as_tasks_as_js: "as_tasks (as_js st) = Some st"
  by (simp add: as_tasks_def as_js_def tasks_of_js_js_of_tasks)

text \<open>A render of one call that is not a hydration is a step.\<close>

lemma commit_single:
  "\<not> is_Loaded e \<Longrightarrow>
   commit parse stringify ([e], ok) st = Some (step p stringify (e, ok) st)"
  by (cases e) (simp_all add: commit_def step_def addTask_def setTaskText_def)

lemma call_untouched:
  assumes "call parse text e st = Some st'"
  shows "saved_ref st' = saved_ref st \<and> writes st' = writes st \<and>
         tasks_ref st' =
           (if replaces_list parse text e then Suc (tasks_ref st) else tasks_ref st)"
proof (cases e)
  case (Loaded got)
  with assms show ?thesis
    by (auto simp: loadTasks_def as_tasks_def as_js_def setTasks_def
        split: sum.splits option.splits if_splits)
next
  case (ChangeText s)
  with assms show ?thesis by (auto simp: setTaskText_def)
next
  case (Submit now)
  with assms show ?thesis by (auto simp: addTask_def setTaskText_def setTasks_def Let_def)
next
  case (Toggle k)
  with assms show ?thesis by (auto simp: toggleTask_def setTasks_def)
next
  case (Delete k)
  with assms show ?thesis by (auto simp: deleteTask_def setTasks_def)
qed

lemma calls_untouched:
  "calls parse text es st = Some st' \<Longrightarrow>
   saved_ref st' = saved_ref st \<and> writes st' = writes st \<and>
   tasks_ref st' = tasks_ref st + length (filter (replaces_list parse text) es)"
proof (induction es arbitrary: st)
  case Nil
  then show ?case by simp
next
  case (Cons e es)
  then obtain st1 where 1: "call parse text e st = Some st1"
    and 2: "calls parse text es st1 = Some st'"
    by (auto split: option.splits)
  from call_untouched [OF 1] Cons.IH [OF 2] show ?case by simp
qed

lemma list_ex_filter: "list_ex P xs \<longleftrightarrow> 0 < length (filter P xs)"
  by (induction xs) auto

lemma commit_writes:
  assumes "rendered st" and "commit parse stringify b st = Some st'"
  shows "writes st' =
           writes st @ (if list_ex (replaces_list parse (taskText st)) (fst b)
                        then [(STORAGE_KEY, stringify (tasks st'))] else [])"
    and "rendered st'"
    and "map_option tasks (calls parse (taskText st) (fst b) st) = Some (tasks st')"
proof -
  from assms(2) obtain st1 where 1: "calls parse (taskText st) (fst b) st = Some st1"
    and 2: "st' = persist_effect stringify (snd b) st1"
    by (auto simp: commit_def)
  from calls_untouched [OF 1] assms(1) 2
  show "writes st' =
           writes st @ (if list_ex (replaces_list parse (taskText st)) (fst b)
                        then [(STORAGE_KEY, stringify (tasks st'))] else [])"
    by (auto simp: persist_effect_def saveTasks_def rendered_def Let_def list_ex_filter)
  from calls_untouched [OF 1] assms(1) 2 show "rendered st'"
    by (auto simp: persist_effect_def saveTasks_def rendered_def Let_def)
  from 1 2 show "map_option tasks (calls parse (taskText st) (fst b) st) = Some (tasks st')"
    by (simp add: persist_effect_def saveTasks_def Let_def)
qed

lemma commits_writes:
  "rendered st \<Longrightarrow> commits parse stringify bs st = Some st' \<Longrightarrow>
   writes st' = writes st @ writes_per_commit parse stringify bs st"
proof (induction bs arbitrary: st)
  case Nil
  then show ?case by simp
next
  case (Cons b bs)
  then obtain st1 where 1: "commit parse stringify b st = Some st1"
    and 2: "commits parse stringify bs st1 = Some st'"
    by (auto split: option.splits)
  from commit_writes(1,2) [OF Cons.prems(1) 1] Cons.IH [OF _ 2] 1 show ?case by simp
qed

lemma call_total: "\<not> is_Loaded e \<Longrightarrow> call parse text e st \<noteq> None"
  by (cases e) simp_all

lemma calls_total:
  "list_all (\<lambda>e. \<not> is_Loaded e) es \<Longrightarrow> calls parse text es st \<noteq> None"
  by (induction es arbitrary: st) (auto split: option.splits dest: call_total)

lemma commits_total:
  "list_all (\<lambda>b. list_all (\<lambda>e. \<not> is_Loaded e) (fst b)) bs \<Longrightarrow>
   commits parse stringify bs st \<noteq> None"
proof (induction bs arbitrary: st)
  case Nil
  then show ?case by simp
next
  case (Cons b bs)
  then have "calls parse (taskText st) (fst b) st \<noteq> None" by (simp add: calls_total)
  then obtain st1 where "commit parse stringify b st = Some st1" by (auto simp: commit_def)
  with Cons show ?case by simp
qed

text \<open>The equations that evaluate a sequence of renders on concrete calls.\<close>

lemmas commit_defs =
  commit_def persist_effect_def saveTasks_def mount_def rendered_def as_js_def as_tasks_def
  loadTasks_def tasks_of_js_js_of_tasks JSON_parse_JSON_stringify JSON_stringify_not_empty

text \<open>
  C7 as the specification states it: every mutation issues one write of its own, and no
  write is issued without a change of the list. The first render issues a write before
  anything has changed: the effect runs and writes the initial, empty list. And a toggle and
  a deletion that one render commits issue one write between them, of the list after both.
\<close>

theorem writes_are_per_render:
  "writes init_app = [] \<and>
   tasks (mount JSON_stringify True init_app) = tasks init_app \<and>
   writes (mount JSON_stringify True init_app) = [(STORAGE_KEY, ascii ''[]'')] \<and>
   map_option tasks (commits JSON_parse JSON_stringify
      [([ChangeText (ascii ''a'')], True), ([Submit 7], True)]
      (mount JSON_stringify True init_app)) =
     Some [\<lparr>task_id = ascii ''7'', task_text = ascii ''a'', isCompleted = False\<rparr>] \<and>
   map_option tasks (commits JSON_parse JSON_stringify
      [([ChangeText (ascii ''a'')], True), ([Submit 7], True),
       ([Toggle (ascii ''7''), Delete (ascii ''7'')], True)]
      (mount JSON_stringify True init_app)) = Some [] \<and>
   map_option writes (commits JSON_parse JSON_stringify
      [([ChangeText (ascii ''a'')], True), ([Submit 7], True),
       ([Toggle (ascii ''7''), Delete (ascii ''7'')], True)]
      (mount JSON_stringify True init_app)) =
     Some [(STORAGE_KEY, ascii ''[]''),
           (STORAGE_KEY, JSON_stringify
              [\<lparr>task_id = ascii ''7'', task_text = ascii ''a'', isCompleted = False\<rparr>]),
           (STORAGE_KEY, ascii ''[]'')]"
  by (simp add: commit_defs handler_defs) (simp add: JSON_stringify_def)

text \<open>
  C7 as the program has it. Once the component has rendered, and as long as its list is a
  list of tasks: a render issues exactly one write, of the serialization of the list as its
  calls leave it and under the fixed key, when it commits a call that replaces the list (the
  addition of a text that is not blank, a toggle, a deletion, a hydration), and no write
  otherwise; so a mutation that a render commits alone issues exactly one write; over a
  sequence of renders the writes are those of the renders, in their order; and a sequence
  without hydration always has a result.
\<close>

theorem writes_follow_commits:
  "rendered st \<longrightarrow>
     (commit parse stringify (es, ok) st = Some st' \<longrightarrow>
        map_option tasks (calls parse (taskText st) es st) = Some (tasks st') \<and>
        writes st' =
          writes st @ (if list_ex (replaces_list parse (taskText st)) es
                       then [(STORAGE_KEY, stringify (tasks st'))] else [])) \<and>
     (replaces_list parse (taskText st) e \<and> commit parse stringify ([e], ok) st = Some st' \<longrightarrow>
        writes st' = writes st @ [(STORAGE_KEY, stringify (tasks st'))]) \<and>
     (commits parse stringify bs st = Some st'' \<longrightarrow>
        writes st'' = writes st @ writes_per_commit parse stringify bs st) \<and>
     (list_all (\<lambda>b. list_all (\<lambda>e. \<not> is_Loaded e) (fst b)) bs \<longrightarrow>
        commits parse stringify bs st \<noteq> None)"
proof (intro impI conjI)
  assume r: "rendered st"
  show "map_option tasks (calls parse (taskText st) es st) = Some (tasks st')"
    if "commit parse stringify (es, ok) st = Some st'"
    using commit_writes(3) [OF r that] by simp
  show "writes st' =
          writes st @ (if list_ex (replaces_list parse (taskText st)) es
                       then [(STORAGE_KEY, stringify (tasks st'))] else [])"
    if "commit parse stringify (es, ok) st = Some st'"
    using commit_writes(1) [OF r that] by simp
  show "writes st' = writes st @ [(STORAGE_KEY, stringify (tasks st'))]"
    if "replaces_list parse (taskText st) e \<and> commit parse stringify ([e], ok) st = Some st'"
    using that commit_writes(1) [OF r, of parse stringify "([e], ok)" st'] by simp
  show "writes st'' = writes st @ writes_per_commit parse stringify bs st"
    if "commits parse stringify bs st = Some st''"
    using r that by (rule commits_writes)
  show "commits parse stringify bs st \<noteq> None"
    if "list_all (\<lambda>b. list_all (\<lambda>e. \<not> is_Loaded e) (fst b)) bs"
    using that by (rule commits_total)
qed

theorem writes_follow_commits_witness:
  "rendered (mount JSON_stringify True init_app) \<and>
   list_all (\<lambda>b. list_all (\<lambda>e. \<not> is_Loaded e) (fst b))
      [([ChangeText (ascii ''a'')], True), ([Submit 7], True),
       ([Toggle (ascii ''7'')], False)] \<and>
   replaces_list JSON_parse (taskText (mount JSON_stringify True init_app))
      (Toggle (ascii ''7'')) \<and>
   map_option writes (commit JSON_parse JSON_stringify ([Toggle (ascii ''7'')], True)
      (mount JSON_stringify True init_app)) =
     Some [(STORAGE_KEY, JSON_stringify []), (STORAGE_KEY, JSON_stringify [])] \<and>
   map_option writes (commits JSON_parse JSON_stringify
      [([ChangeText (ascii ''a'')], True), ([Submit 7], True), ([Toggle (ascii ''7'')], False),
       ([ChangeText (ascii ''  '')], True), ([Submit 8], True), ([Loaded (Inr None)], True),
       ([Loaded (Inr (Some (JSON_stringify
           [\<lparr>task_id = ascii ''9'', task_text = ascii ''b'', isCompleted = True\<rparr>])))], True),
       ([Delete (ascii ''9''), ChangeText (ascii ''c'')], True)]
      (mount JSON_stringify True init_app)) =
     Some [(STORAGE_KEY, JSON_stringify []),
           (STORAGE_KEY, JSON_stringify
              [\<lparr>task_id = ascii ''7'', task_text = ascii ''a'', isCompleted = False\<rparr>]),
           (STORAGE_KEY, JSON_stringify
              [\<lparr>task_id = ascii ''7'', task_text = ascii ''a'', isCompleted = True\<rparr>]),
           (STORAGE_KEY, JSON_stringify
              [\<lparr>task_id = ascii ''9'', task_text = ascii ''b'', isCompleted = True\<rparr>]),
           (STORAGE_KEY, JSON_stringify [])]"
  using writes_follow_commits [of "mount JSON_stringify True init_app" JSON_parse
      JSON_stringify "[Toggle (ascii ''7'')]" True _ "Toggle (ascii ''7'')"
      "[([ChangeText (ascii ''a'')], True), ([Submit 7], True), ([Toggle (ascii ''7'')], False),
       ([ChangeText (ascii ''  '')], True), ([Submit 8], True), ([Loaded (Inr None)], True),
       ([Loaded (Inr (Some (JSON_stringify
           [\<lparr>task_id = ascii ''9'', task_text = ascii ''b'', isCompleted = True\<rparr>])))], True),
       ([Delete (ascii ''9''), ChangeText (ascii ''c'')], True)]"]
  by (simp add: commit_defs handler_defs)

subsection \<open>A write that fails\<close>

text \<open>What a run does to the list, the input and the writes does not depend on the alerts.\<close>

lemma handle_alerts_apart:
  "handle parse ev (st\<lparr>alerts := a\<rparr>) =
     (handle parse ev st)\<lparr>alerts := a @ drop (length (alerts st)) (alerts (handle parse ev st))\<rparr>"
  by (cases ev)
    (auto simp: loadTasks_def setTasks_def setTaskText_def addTask_def toggleTask_def
      deleteTask_def Let_def split: sum.splits option.splits)

lemma persist_effect_alerts_apart:
  "persist_effect stringify ok (st\<lparr>alerts := a\<rparr>) =
     (persist_effect stringify ok st)
       \<lparr>alerts := a @ drop (length (alerts st)) (alerts (persist_effect stringify ok st))\<rparr>"
  by (simp add: persist_effect_def saveTasks_def Let_def)

lemma step_alerts_apart:
  "\<exists>b. step parse stringify e (st\<lparr>alerts := a\<rparr>) = (step parse stringify e st)\<lparr>alerts := b\<rparr>"
  by (simp only: step_def handle_alerts_apart persist_effect_alerts_apart) (rule exI, rule refl)

lemma run_alerts_apart:
  "\<exists>b. run parse stringify es (st\<lparr>alerts := a\<rparr>) = (run parse stringify es st)\<lparr>alerts := b\<rparr>"
proof (induction es arbitrary: st a)
  case Nil
  show ?case by auto
next
  case (Cons e es)
  obtain b where "step parse stringify e (st\<lparr>alerts := a\<rparr>) = (step parse stringify e st)\<lparr>alerts := b\<rparr>"
    using step_alerts_apart by blast
  then show ?case using Cons [where st = "step parse stringify e st" and a = b] by simp
qed

text \<open>
  C8. When the write that follows a change of the list fails: the list is the list after
  the change, one alert is shown, that one write and no other has been issued, the state
  differs from the state after a successful write in the alert only, and whatever events
  follow give the same list, the same input and the same writes as they give after a
  successful write.
\<close>

theorem failed_write_alerts_and_keeps:
  "rendered st \<and> observed_change parse ev st \<longrightarrow>
     tasks (step parse stringify (ev, False) st) = tasks (handle parse ev st) \<and>
     alerts (step parse stringify (ev, False) st) = alerts st @ [Erro_ao_salvar] \<and>
     writes (step parse stringify (ev, False) st) =
       writes st @ [(STORAGE_KEY, stringify (tasks (handle parse ev st)))] \<and>
     step parse stringify (ev, False) st =
       (step parse stringify (ev, True) st)\<lparr>alerts := alerts st @ [Erro_ao_salvar]\<rparr> \<and>
     (\<forall>es. tasks (run parse stringify es (step parse stringify (ev, False) st)) =
             tasks (run parse stringify es (step parse stringify (ev, True) st)) \<and>
           taskText (run parse stringify es (step parse stringify (ev, False) st)) =
             taskText (run parse stringify es (step parse stringify (ev, True) st)) \<and>
           writes (run parse stringify es (step parse stringify (ev, False) st)) =
             writes (run parse stringify es (step parse stringify (ev, True) st)))"
proof (intro impI)
  assume a: "rendered st \<and> observed_change parse ev st"
  then have r: "rendered st" and c: "observed_change parse (fst (ev, False)) st"
    "observed_change parse (fst (ev, True)) st" by simp_all
  note f = step_changes [OF r c(1), of stringify] and t = step_changes [OF r c(2), of stringify]
  have eq: "step parse stringify (ev, False) st =
       (step parse stringify (ev, True) st)\<lparr>alerts := alerts st @ [Erro_ao_salvar]\<rparr>"
    by (simp add: f t)
  have later: "tasks (run parse stringify es (step parse stringify (ev, False) st)) =
             tasks (run parse stringify es (step parse stringify (ev, True) st)) \<and>
           taskText (run parse stringify es (step parse stringify (ev, False) st)) =
             taskText (run parse stringify es (step parse stringify (ev, True) st)) \<and>
           writes (run parse stringify es (step parse stringify (ev, False) st)) =
             writes (run parse stringify es (step parse stringify (ev, True) st))" for es
  proof -
    obtain b where "run parse stringify es (step parse stringify (ev, False) st) =
        (run parse stringify es (step parse stringify (ev, True) st))\<lparr>alerts := b\<rparr>"
      unfolding eq using run_alerts_apart by blast
    then show ?thesis by simp
  qed
  have 1: "tasks (step parse stringify (ev, False) st) = tasks (handle parse ev st)"
    by (simp add: f)
  have 2: "alerts (step parse stringify (ev, False) st) = alerts st @ [Erro_ao_salvar]"
    by (simp add: f)
  have 3: "writes (step parse stringify (ev, False) st) =
       writes st @ [(STORAGE_KEY, stringify (tasks (handle parse ev st)))]"
    by (simp add: f)
  from 1 2 3 eq later
  show "tasks (step parse stringify (ev, False) st) = tasks (handle parse ev st) \<and>
     alerts (step parse stringify (ev, False) st) = alerts st @ [Erro_ao_salvar] \<and>
     writes (step parse stringify (ev, False) st) =
       writes st @ [(STORAGE_KEY, stringify (tasks (handle parse ev st)))] \<and>
     step parse stringify (ev, False) st =
       (step parse stringify (ev, True) st)\<lparr>alerts := alerts st @ [Erro_ao_salvar]\<rparr> \<and>
     (\<forall>es. tasks (run parse stringify es (step parse stringify (ev, False) st)) =
             tasks (run parse stringify es (step parse stringify (ev, True) st)) \<and>
           taskText (run parse stringify es (step parse stringify (ev, False) st)) =
             taskText (run parse stringify es (step parse stringify (ev, True) st)) \<and>
           writes (run parse stringify es (step parse stringify (ev, False) st)) =
             writes (run parse stringify es (step parse stringify (ev, True) st)))"
    by blast
qed

theorem failed_write_alerts_and_keeps_witness:
  "\<forall>parse.
     rendered (step parse JSON_stringify (ChangeText (ascii ''a''), True)
        (mount JSON_stringify True init_app)) \<and>
     observed_change parse (Submit 7) (step parse JSON_stringify (ChangeText (ascii ''a''), True)
        (mount JSON_stringify True init_app)) \<and>
     tasks (step parse JSON_stringify (Submit 7, False)
        (step parse JSON_stringify (ChangeText (ascii ''a''), True)
          (mount JSON_stringify True init_app))) =
       [\<lparr>task_id = ascii ''7'', task_text = ascii ''a'', isCompleted = False\<rparr>] \<and>
     alerts (step parse JSON_stringify (Submit 7, False)
        (step parse JSON_stringify (ChangeText (ascii ''a''), True)
          (mount JSON_stringify True init_app))) = [Erro_ao_salvar] \<and>
     writes (step parse JSON_stringify (Submit 7, False)
        (step parse JSON_stringify (ChangeText (ascii ''a''), True)
          (mount JSON_stringify True init_app))) =
       [(STORAGE_KEY, JSON_stringify []),
        (STORAGE_KEY, JSON_stringify
           [\<lparr>task_id = ascii ''7'', task_text = ascii ''a'', isCompleted = False\<rparr>])] \<and>
     tasks (run parse JSON_stringify [(Toggle (ascii ''7''), True)]
        (step parse JSON_stringify (Submit 7, False)
          (step parse JSON_stringify (ChangeText (ascii ''a''), True)
            (mount JSON_stringify True init_app)))) =
       [\<lparr>task_id = ascii ''7'', task_text = ascii ''a'', isCompleted = True\<rparr>]"
proof
  fix parse :: "jsstring \<Rightarrow> js_error + task list"
  let ?st = "step parse JSON_stringify (ChangeText (ascii ''a''), True)
        (mount JSON_stringify True init_app)"
  have h: "rendered ?st \<and> observed_change parse (Submit 7) ?st"
    by (simp add: machine_defs handler_defs)
  from h failed_write_alerts_and_keeps [of ?st parse "Submit 7" JSON_stringify]
  show "rendered ?st \<and> observed_change parse (Submit 7) ?st \<and>
     tasks (step parse JSON_stringify (Submit 7, False) ?st) =
       [\<lparr>task_id = ascii ''7'', task_text = ascii ''a'', isCompleted = False\<rparr>] \<and>
     alerts (step parse JSON_stringify (Submit 7, False) ?st) = [Erro_ao_salvar] \<and>
     writes (step parse JSON_stringify (Submit 7, False) ?st) =
       [(STORAGE_KEY, JSON_stringify []),
        (STORAGE_KEY, JSON_stringify
           [\<lparr>task_id = ascii ''7'', task_text = ascii ''a'', isCompleted = False\<rparr>])] \<and>
     tasks (run parse JSON_stringify [(Toggle (ascii ''7''), True)]
        (step parse JSON_stringify (Submit 7, False) ?st)) =
       [\<lparr>task_id = ascii ''7'', task_text = ascii ''a'', isCompleted = True\<rparr>]"
    by (simp add: machine_defs handler_defs)
qed

end
